theory Spec2Isabelle
  imports Main "HOL-Library.Char_ord" "HOL-Library.List_Lexorder" "HOL-Library.Sublist"
begin

section \<open>Strings\<close>

text \<open>
  A JavaScript string is a sequence of UTF-16 code units. The model uses \<^typ>\<open>string\<close>,
  whose characters are the code units below U+0100 (ASCII and the Latin-1 supplement), one
  \<^typ>\<open>char\<close> per code unit. On this range \<open>toLowerCase\<close> works code unit by code
  unit: A-Z and the Latin-1 capitals U+00C0-U+00DE (without the multiplication sign U+00D7)
  move up by 32, every other code unit stays. The white space of \<open>\s\<close> and of
  \<open>trim\<close> on this range is TAB, LF, VT, FF, CR, SPACE and NBSP.
\<close>

definition toLowerChar :: "char \<Rightarrow> char" where
  "toLowerChar c =
     (let n = (of_char c :: nat)
      in if (65 \<le> n \<and> n \<le> 90) \<or> (192 \<le> n \<and> n \<le> 222 \<and> n \<noteq> 215)
         then char_of (n + 32) else c)"

definition toLowerCase :: "string \<Rightarrow> string" where
  "toLowerCase s = map toLowerChar s"

definition isLowerAZ :: "char \<Rightarrow> bool" where
  "isLowerAZ c = (let n = (of_char c :: nat) in 97 \<le> n \<and> n \<le> 122)"

definition isDigit :: "char \<Rightarrow> bool" where
  "isDigit c = (let n = (of_char c :: nat) in 48 \<le> n \<and> n \<le> 57)"

definition isSpace :: "char \<Rightarrow> bool" where
  "isSpace c = (let n = (of_char c :: nat) in (9 \<le> n \<and> n \<le> 13) \<or> n = 32 \<or> n = 160)"

text \<open>\<open>s.trim()\<close>\<close>

definition trim :: "string \<Rightarrow> string" where
  "trim s = rev (dropWhile isSpace (rev (dropWhile isSpace s)))"

text \<open>\<open>s.startsWith(p)\<close>\<close>

definition startsWith :: "string \<Rightarrow> string \<Rightarrow> bool" where
  "startsWith s p = (take (length p) s = p)"

text \<open>\<open>s.includes(p)\<close>: \<open>p\<close> occurs in \<open>s\<close> as a contiguous run.\<close>

fun includesStr :: "string \<Rightarrow> string \<Rightarrow> bool" where
  "includesStr [] p = (p = [])"
| "includesStr (c # cs) p = (startsWith (c # cs) p \<or> includesStr cs p)"

text \<open>
  \<open>s.split(/\s+/)\<close>: the pieces between the maximal runs of white space. A string that
  starts (ends) with white space gives an empty first (last) piece, and the empty string
  gives one empty piece.
\<close>

function splitWs :: "string \<Rightarrow> string list" where
  "splitWs [] = [[]]"
| "splitWs (c # cs) =
     (if isSpace c then [] # splitWs (dropWhile isSpace cs)
      else (case splitWs cs of w # ws \<Rightarrow> (c # w) # ws | [] \<Rightarrow> [[c]]))"
  by pat_completeness auto
termination
  by (relation "measure length") (auto simp: length_dropWhile_le less_Suc_eq_le)

text \<open>\<open>xs.join(", ")\<close> and the other joins of the source\<close>

fun join :: "string \<Rightarrow> string list \<Rightarrow> string" where
  "join sep [] = []"
| "join sep [x] = x"
| "join sep (x # y # ys) = x @ sep @ join sep (y # ys)"

section \<open>The words of the specification\<close>

text \<open>
  The specification speaks of lowercasing, of alphabetic and alphanumeric characters, of
  words, of one string starting with another and of one string being a substring of another.
  These notions are defined here on their own, without the functions that model the
  source, so that the two sides can be compared: a letter is one of a to z, a digit one of
  0 to 9, lowercasing moves a capital A to Z to its small letter and leaves every other
  character, white space is TAB, LF, VT, FF, CR, SPACE and NBSP, and a word is a maximal
  run of characters that are not white space. Starting with is \<open>prefix\<close> and being
  a substring is \<open>sublist\<close>, both of the list library.
\<close>

definition isLetter :: "char \<Rightarrow> bool" where
  "isLetter c \<longleftrightarrow> CHR ''a'' \<le> c \<and> c \<le> CHR ''z''"

definition isCapital :: "char \<Rightarrow> bool" where
  "isCapital c \<longleftrightarrow> CHR ''A'' \<le> c \<and> c \<le> CHR ''Z''"

definition isNumeral :: "char \<Rightarrow> bool" where
  "isNumeral c \<longleftrightarrow> CHR ''0'' \<le> c \<and> c \<le> CHR ''9''"

definition whiteSpace :: string where
  "whiteSpace = map char_of [9, 10, 11, 12, 13, 32, 160 :: nat]"

definition lowerOf :: "char \<Rightarrow> char" where
  "lowerOf c = (if isCapital c then char_of (of_char c + (32 :: nat)) else c)"

text \<open>The title lowercased, with every character that is not alphanumeric stripped.\<close>

definition titleKey :: "string \<Rightarrow> string" where
  "titleKey t = filter (\<lambda>c. isLetter c \<or> isNumeral c) (map lowerOf t)"

text \<open>The words of a string: \<open>w\<close> is the word that is being read.\<close>

fun wordsFrom :: "string \<Rightarrow> string \<Rightarrow> string list" where
  "wordsFrom w [] = (if w = [] then [] else [w])"
| "wordsFrom w (c # cs) =
     (if c \<in> set whiteSpace then (if w = [] then [] else [w]) @ wordsFrom [] cs
      else wordsFrom (w @ [c]) cs)"

definition wordsOf :: "string \<Rightarrow> string list" where
  "wordsOf s = wordsFrom [] s"

text \<open>
  The lowercase alphabetic words of at least 3 characters of a name, and the lowercase
  alphanumeric words of at least 3 characters of a title or a query: the other characters
  are dropped, and the rest is read word by word.
\<close>

definition alphabeticWords :: "string \<Rightarrow> string list" where
  "alphabeticWords s =
     filter (\<lambda>w. 3 \<le> length w)
       (wordsOf (filter (\<lambda>c. isLetter c \<or> c \<in> set whiteSpace) (map lowerOf s)))"

definition alphanumericWords :: "string \<Rightarrow> string list" where
  "alphanumericWords s =
     filter (\<lambda>w. 3 \<le> length w)
       (wordsOf (filter (\<lambda>c. isLetter c \<or> isNumeral c \<or> c \<in> set whiteSpace) (map lowerOf s)))"

text \<open>A string starts, in any case of letters, with a prefix written in small letters.\<close>

definition startsWithIgnoringCase :: "string \<Rightarrow> string \<Rightarrow> bool" where
  "startsWithIgnoringCase s p = prefix p (map lowerOf s)"

section \<open>Deduplication\<close>

text \<open>
  A book as the identification passes and the browser hand it over: title and author are
  strings; \<open>confidence\<close> and \<open>corrected\<close> may be absent (\<open>None\<close>).
\<close>

record book =
  title :: string
  author :: string
  confidence :: "string option"
  corrected :: "bool option"

text \<open>\<open>t.toLowerCase().replace(/[^a-z0-9]/g, "").trim()\<close>\<close>

definition normalizeTitle :: "string \<Rightarrow> string" where
  "normalizeTitle t = trim (filter (\<lambda>c. isLowerAZ c \<or> isDigit c) (toLowerCase t))"

text \<open>
  \<open>confRank[book.confidence] || 0\<close>. The table \<open>confRank\<close> is an object literal, so a
  lookup also finds what every object inherits from \<open>Object.prototype\<close>: for those keys the
  value is a function (or, for \<open>__proto__\<close>, the prototype object), which is truthy and so
  survives \<open>|| 0\<close>. Under \<open>>\<close> such a value is converted to a primitive, which is the
  string of its source text. An absent confidence is looked up under the key
  \<open>undefined\<close>.
\<close>

datatype rank = Num nat | Inherited string

definition objectPrototypeFunctions :: "string list" where
  "objectPrototypeFunctions =
     [''constructor'', ''toString'', ''toLocaleString'', ''valueOf'', ''hasOwnProperty'',
      ''isPrototypeOf'', ''propertyIsEnumerable'', ''__defineGetter__'', ''__defineSetter__'',
      ''__lookupGetter__'', ''__lookupSetter__'']"

definition nativeSource :: "string \<Rightarrow> string" where
  "nativeSource k =
     ''function '' @ (if k = ''constructor'' then ''Object'' else k) @ ''() { [native code] }''"

definition confRank :: "string option \<Rightarrow> rank" where
  "confRank conf =
     (let k = (case conf of None \<Rightarrow> ''undefined'' | Some s \<Rightarrow> s)
      in if k = ''high'' then Num 3
         else if k = ''medium'' then Num 2
         else if k = ''low'' then Num 1
         else if k \<in> set objectPrototypeFunctions then Inherited (nativeSource k)
         else if k = ''__proto__'' then Inherited ''[object Object]''
         else Num 0)"

text \<open>
  \<open>a > b\<close> on two such values: numbers compare as numbers, two strings compare by code
  units, and a string against a number is converted to \<open>NaN\<close>, which makes the comparison
  false.
\<close>

fun rankGreater :: "rank \<Rightarrow> rank \<Rightarrow> bool" where
  "rankGreater (Num a) (Num b) = (b < a)"
| "rankGreater (Inherited s) (Inherited t) = (t < s)"
| "rankGreater _ _ = False"

text \<open>
  The \<open>Map\<close> of the source keeps its entries in insertion order, and \<open>set\<close> on a key
  that is present replaces the value where it stands.
\<close>

type_synonym bookMap = "(string \<times> book) list"

fun mapGet :: "bookMap \<Rightarrow> string \<Rightarrow> book option" where
  "mapGet [] k = None"
| "mapGet ((k', v) # m) k = (if k' = k then Some v else mapGet m k)"

fun mapSet :: "bookMap \<Rightarrow> string \<Rightarrow> book \<Rightarrow> bookMap" where
  "mapSet [] k v = [(k, v)]"
| "mapSet ((k', v') # m) k v = (if k' = k then (k, v) # m else (k', v') # mapSet m k v)"

definition dedupStep :: "bookMap \<Rightarrow> book \<Rightarrow> bookMap" where
  "dedupStep m b =
     (let key = normalizeTitle (title b)
      in if key = [] then m
         else (case mapGet m key of
                 None \<Rightarrow> mapSet m key b
               | Some existing \<Rightarrow>
                   if rankGreater (confRank (confidence b)) (confRank (confidence existing))
                   then mapSet m key b else m))"

definition deduplicateBooks :: "book list \<Rightarrow> book list" where
  "deduplicateBooks allBooks = map snd (foldl dedupStep [] allBooks)"

text \<open>The key under which a book is stored: its normalized title.\<close>

definition bookKey :: "book \<Rightarrow> string" where
  "bookKey b = normalizeTitle (title b)"

text \<open>The normalized title of a book as the specification words it.\<close>

definition claimedKey :: "book \<Rightarrow> string" where
  "claimedKey b = titleKey (title b)"

text \<open>Every entry of the map stands under the key of its own book, and no key is empty.\<close>

definition wfMap :: "bookMap \<Rightarrow> bool" where
  "wfMap m \<longleftrightarrow> distinct (map fst m) \<and> (\<forall>(k, b) \<in> set m. k = bookKey b \<and> k \<noteq> [])"

text \<open>
  The confidences whose lookup in \<open>confRank\<close> finds an inherited property instead of a
  number or nothing.
\<close>

definition inheritsRank :: "string option \<Rightarrow> bool" where
  "inheritsRank conf =
     (let k = (case conf of None \<Rightarrow> ''undefined'' | Some s \<Rightarrow> s)
      in k \<in> set objectPrototypeFunctions \<or> k = ''__proto__'')"

text \<open>
  The confidence rank as the specification words it: high 3, medium 2, low 1, and 0 for
  everything else.
\<close>

definition confidenceRank :: "string option \<Rightarrow> nat" where
  "confidenceRank conf =
     (if conf = Some ''high'' then 3 else if conf = Some ''medium'' then 2
      else if conf = Some ''low'' then 1 else 0)"

abbreviation rk :: "book \<Rightarrow> nat" where
  "rk b \<equiv> confidenceRank (confidence b)"

text \<open>
  \<open>best xs k e\<close>: among the books of \<open>xs\<close> with key \<open>k\<close>, the book \<open>e\<close> has the
  greatest rank and is the first of that rank.
\<close>

definition best :: "book list \<Rightarrow> string \<Rightarrow> book \<Rightarrow> bool" where
  "best xs k e \<longleftrightarrow>
     e \<in> set xs \<and> bookKey e = k \<and> (\<forall>b \<in> set xs. bookKey b = k \<longrightarrow> rk b \<le> rk e) \<and>
     find (\<lambda>b. bookKey b = k \<and> rk b = rk e) xs = Some e"

text \<open>The state of the map after the loop has consumed \<open>xs\<close>.\<close>

definition keeps :: "book list \<Rightarrow> bookMap \<Rightarrow> bool" where
  "keeps xs m \<longleftrightarrow>
     distinct (map fst m) \<and>
     (\<forall>k. k \<in> fst ` set m \<longleftrightarrow> k \<noteq> [] \<and> k \<in> bookKey ` set xs) \<and>
     (\<forall>k e. (k, e) \<in> set m \<longrightarrow> best xs k e)"

text \<open>The two detections of the end-to-end scenario, and one without a usable title.\<close>

definition duneHigh :: book where
  "duneHigh = \<lparr>title = ''Dune'', author = ''Frank Herbert'', confidence = Some ''high'',
     corrected = None\<rparr>"

definition duneLow :: book where
  "duneLow = \<lparr>title = ''dune'', author = ''F. Herbert'', confidence = Some ''low'',
     corrected = None\<rparr>"

definition noTitle :: book where
  "noTitle = \<lparr>title = ''?!'', author = ''Unknown'', confidence = Some ''medium'',
     corrected = None\<rparr>"

text \<open>A detection of another book.\<close>

definition emmaMedium :: book where
  "emmaMedium = \<lparr>title = ''Emma'', author = ''Jane Austen'', confidence = Some ''medium'',
     corrected = None\<rparr>"

text \<open>Two detections whose confidence is the name of an inherited property.\<close>

definition duneInherited :: book where
  "duneInherited = \<lparr>title = ''Dune'', author = ''Frank Herbert'',
     confidence = Some ''constructor'', corrected = None\<rparr>"

definition duneProto :: book where
  "duneProto = \<lparr>title = ''Dune'', author = ''Frank Herbert'',
     confidence = Some ''__proto__'', corrected = None\<rparr>"

section \<open>Partitioner\<close>

text \<open>
  The overview of the counting pass; \<open>None\<close> stands for the \<open>null\<close> of a failed pass.
  Its numbers are integers, as in the data model; the field \<open>notes\<close> of the source is
  \<open>layoutNotes\<close> here.
\<close>

record overview =
  count :: int
  shelves :: int
  layoutNotes :: string

text \<open>
  A region of the image, in pixels. The field \<open>top\<close> of the source is \<open>topEdge\<close> here,
  since \<open>top\<close> is the greatest element of an order in HOL.
\<close>

record region =
  left :: int
  topEdge :: int
  width :: int
  height :: int
  label :: string

text \<open>
  \<open>Math.round(a / b)\<close> for integers \<open>a \<ge> 0\<close> and \<open>b > 0\<close>: the nearest integer, a half
  going up. The source divides a pixel count by 1, 2, 3 or 4: the floating-point quotient
  is exact, or (by 3) has the fractional part 1/3 or 2/3, which the rounding to a double
  does not carry across the half.
\<close>

definition roundDiv :: "int \<Rightarrow> int \<Rightarrow> int" where
  "roundDiv a b = (2 * a + b) div (2 * b)"

text \<open>
  \<open>Math.round(c * overlapFrac)\<close> with \<open>overlapFrac = 0.15\<close>, for an integer \<open>c \<ge> 0\<close>: the
  nearest integer to \<open>3c/20\<close>, a half going up. The floating-point product lies within a
  relative error of \<open>2^-54\<close> of \<open>3c/20\<close>, so it is the half itself where \<open>3c/20\<close> is one, and
  is on the same side of the nearest half elsewhere.
\<close>

definition overlapPad :: "int \<Rightarrow> int" where
  "overlapPad c = (3 * c + 10) div 20"

text \<open>The decimal digits of a number, for the labels and the cover address.\<close>

definition digitChar :: "nat \<Rightarrow> char" where
  "digitChar d = char_of (48 + d)"

function showNat :: "nat \<Rightarrow> string" where
  "showNat n = (if n < 10 then [digitChar n] else showNat (n div 10) @ [digitChar (n mod 10)])"
  by pat_completeness auto
termination
  by (relation "measure id") auto

definition showInt :: "int \<Rightarrow> string" where
  "showInt i = (if i < 0 then ''-'' @ showNat (nat (- i)) else showNat (nat i))"

text \<open>The grid: \<open>cols\<close> from the book count and the width, \<open>rows\<close> from the shelves and the height.\<close>

definition gridCols :: "int \<Rightarrow> int \<Rightarrow> nat" where
  "gridCols bookCount w =
     (if 40 \<le> bookCount \<or> 3000 \<le> w then 4
      else if 20 \<le> bookCount \<or> 2000 \<le> w then 3
      else 2)"

definition gridRows :: "int \<Rightarrow> int \<Rightarrow> nat" where
  "gridRows shelvs h =
     (if 4 \<le> shelvs \<or> 3000 \<le> h then 4
      else if 2 \<le> shelvs \<or> 1600 \<le> h then nat (max shelvs 2)
      else 1)"

text \<open>The body of the two loops: the region of the cell in row \<open>row\<close> and column \<open>col\<close>.\<close>

definition cellRegion :: "int \<Rightarrow> int \<Rightarrow> nat \<Rightarrow> nat \<Rightarrow> nat \<Rightarrow> nat \<Rightarrow> region" where
  "cellRegion w h cols rows row col =
     (let cellW = roundDiv w (int cols);
          cellH = roundDiv h (int rows);
          padL = (if 0 < col then overlapPad cellW else 0);
          padR = (if col + 1 < cols then overlapPad cellW else 0);
          padT = (if 0 < row then overlapPad cellH else 0);
          padB = (if row + 1 < rows then overlapPad cellH else 0);
          l = max 0 (int col * cellW - padL);
          t = max 0 (int row * cellH - padT);
          r = min w ((int col + 1) * cellW + padR);
          b = min h ((int row + 1) * cellH + padB)
      in \<lparr>left = l, topEdge = t, width = r - l, height = b - t,
          label = ''row'' @ showNat (row + 1) @ ''-col'' @ showNat (col + 1)\<rparr>)"

text \<open>\<open>overview?.count || 0\<close> and \<open>overview?.shelves || 1\<close>\<close>

definition bookCountOf :: "overview option \<Rightarrow> int" where
  "bookCountOf ov = (case ov of None \<Rightarrow> 0 | Some v \<Rightarrow> count v)"

definition shelvesOf :: "overview option \<Rightarrow> int" where
  "shelvesOf ov = (case ov of None \<Rightarrow> 1 | Some v \<Rightarrow> if shelves v = 0 then 1 else shelves v)"

text \<open>
  \<open>tileImage\<close>, for an image of \<open>w\<close> by \<open>h\<close> pixels: the regions that are cut out, in the
  order of the loops. A small image is not cut; its one tile is the whole image, which is
  the region from the origin of the full width and height.
\<close>

definition tileImage :: "int \<Rightarrow> int \<Rightarrow> overview option \<Rightarrow> region list" where
  "tileImage w h ov =
     (if w < 1200 \<and> h < 1200
      then [\<lparr>left = 0, topEdge = 0, width = w, height = h, label = ''full image''\<rparr>]
      else
        (let cols = gridCols (bookCountOf ov) w;
             rows = gridRows (shelvesOf ov) h
         in concat (map (\<lambda>row. map (\<lambda>col. cellRegion w h cols rows row col) [0..<cols])
                        [0..<rows])))"

text \<open>The pixel \<open>(x, y)\<close> lies in the rectangle of the region.\<close>

definition covers :: "region \<Rightarrow> int \<Rightarrow> int \<Rightarrow> bool" where
  "covers r x y \<longleftrightarrow>
     left r \<le> x \<and> x < left r + width r \<and> topEdge r \<le> y \<and> y < topEdge r + height r"



text \<open>
  The region of the cell in row \<open>row\<close> and column \<open>col\<close> (both counted from 0) in the
  list that \<open>tileImage\<close> returns, and the cells that the grid has.
\<close>

definition regionAt :: "int \<Rightarrow> int \<Rightarrow> overview option \<Rightarrow> nat \<Rightarrow> nat \<Rightarrow> region" where
  "regionAt w h ov row col = tileImage w h ov ! (row * gridCols (bookCountOf ov) w + col)"

definition inGrid :: "int \<Rightarrow> int \<Rightarrow> overview option \<Rightarrow> nat \<Rightarrow> nat \<Rightarrow> bool" where
  "inGrid w h ov row col \<longleftrightarrow>
     row < gridRows (shelvesOf ov) h \<and> col < gridCols (bookCountOf ov) w"


section \<open>Resolver\<close>

text \<open>
  A document of the search service. A field that the service left out is \<open>None\<close>. The
  field \<open>title\<close> of the source is \<open>docTitle\<close> here.
\<close>

record doc =
  docTitle :: "string option"
  author_name :: "string list option"
  isbn :: "string list option"
  cover_i :: "int option"
  first_publish_year :: "int option"
  publisher :: "string list option"
  number_of_pages_median :: "int option"
  subject :: "string list option"

text \<open>\<open>const norm = (s) => s.toLowerCase().replace(/[^a-z\s]/g, "").trim()\<close>\<close>

definition norm :: "string \<Rightarrow> string" where
  "norm s = trim (filter (\<lambda>c. isLowerAZ c \<or> isSpace c) (toLowerCase s))"

text \<open>\<open>norm(s).split(/\s+/).filter(w => w.length > 2)\<close>\<close>

definition nameWords :: "string \<Rightarrow> string list" where
  "nameWords s = filter (\<lambda>w. 2 < length w) (splitWs (norm s))"

text \<open>\<open>ws[ws.length - 1]\<close>, which is \<open>undefined\<close> (here \<open>None\<close>) on the empty array.\<close>

definition lastElem :: "'a list \<Rightarrow> 'a option" where
  "lastElem ws = (if ws = [] then None else Some (last ws))"

text \<open>\<open>cw.includes(ew) || ew.includes(cw)\<close>\<close>

definition wordsOverlap :: "string \<Rightarrow> string \<Rightarrow> bool" where
  "wordsOverlap cw ew = (includesStr cw ew \<or> includesStr ew cw)"

definition authorsMatch :: "string \<Rightarrow> string \<Rightarrow> bool" where
  "authorsMatch expected candidate =
     (if expected = [] \<or> expected = ''Unknown'' \<or> candidate = [] then True
      else
        (let expWords = nameWords expected;
             candWords = nameWords candidate
         in if length expWords = 0 then True
            else if lastElem expWords = lastElem candWords then True
            else
              (let matchCount =
                     length (filter (\<lambda>ew. \<exists>cw \<in> set candWords. wordsOverlap cw ew) expWords)
               in (length expWords + 1) div 2 \<le> matchCount)))"

text \<open>
  The author filter as the specification words it: the three cases that cannot be
  verified, or equal last words, or at least half of the expected words being a substring
  of, or containing, some candidate word. The words are the lowercase alphabetic words of
  at least 3 characters.
\<close>

definition authorsMatch_spec :: "string \<Rightarrow> string \<Rightarrow> bool" where
  "authorsMatch_spec expected candidate =
     (expected = [] \<or> expected = ''Unknown'' \<or> candidate = [] \<or>
      (alphabeticWords expected \<noteq> [] \<and> alphabeticWords candidate \<noteq> [] \<and>
       last (alphabeticWords expected) = last (alphabeticWords candidate)) \<or>
      length (alphabeticWords expected) \<le>
        2 * length (filter (\<lambda>ew. \<exists>cw \<in> set (alphabeticWords candidate).
                               sublist ew cw \<or> sublist cw ew) (alphabeticWords expected)))"

text \<open>\<open>x || ""\<close> on a string that may be absent\<close>

definition orEmpty :: "string option \<Rightarrow> string" where
  "orEmpty x = (case x of None \<Rightarrow> [] | Some s \<Rightarrow> s)"

definition isSummaryKnockoff :: "string option \<Rightarrow> string option \<Rightarrow> bool" where
  "isSummaryKnockoff resultTitle queryTitle =
     (let rt = toLowerCase (orEmpty resultTitle);
          qt = toLowerCase (orEmpty queryTitle)
      in if \<not> startsWith qt ''summary'' \<and> startsWith rt ''summary'' then True
         else if \<not> startsWith qt ''review'' \<and> startsWith rt ''review'' then True
         else if \<not> startsWith qt ''analysis'' \<and> startsWith rt ''analysis of'' then True
         else False)"

text \<open>
  The knockoff filter as the specification words it, read to the letter: the candidate
  starts with one of three prefixes, and the query does not start with that same prefix.
\<close>

definition claimedPrefixes :: "string list" where
  "claimedPrefixes = [''summary'', ''review'', ''analysis of'']"

definition isSummaryKnockoff_claimed :: "string \<Rightarrow> string \<Rightarrow> bool" where
  "isSummaryKnockoff_claimed candidateTitle queryTitle =
     (\<exists>p \<in> set claimedPrefixes.
        startsWithIgnoringCase candidateTitle p \<and> \<not> startsWithIgnoringCase queryTitle p)"

text \<open>
  The knockoff filter as amended: each prefix of a knockoff title with the word that the
  query must start with for the candidate to pass. For the prefix "analysis of" that is the
  word "analysis" alone.
\<close>

definition knockoffPrefixes :: "(string \<times> string) list" where
  "knockoffPrefixes =
     [(''summary'', ''summary''), (''review'', ''review''), (''analysis of'', ''analysis'')]"

definition isSummaryKnockoff_spec :: "string \<Rightarrow> string \<Rightarrow> bool" where
  "isSummaryKnockoff_spec candidateTitle queryTitle =
     (\<exists>(p, w) \<in> set knockoffPrefixes.
        startsWithIgnoringCase candidateTitle p \<and> \<not> startsWithIgnoringCase queryTitle w)"

text \<open>
  The result of a lookup. A match carries the fields of \<open>docToResult\<close>; it has no
  \<open>confidence\<close> and no \<open>corrected\<close>. A record without a match is the input with
  \<open>matched\<close> added and nothing of the catalog (\<open>info = None\<close>).
\<close>

record details =
  isbn13 :: string
  isbn10 :: string
  coverUrl :: "string option"
  publishYear :: "int option"
  publisherName :: string
  pages :: "int option"
  subjects :: string

record enriched = book +
  info :: "details option"
  matched :: bool

text \<open>
  \<open>x || ""\<close> on a number that may be absent: the number 0 is falsy as well. The numbers
  of a document are integers below \<open>10^21\<close> in size, which a template literal prints
  digit by digit, as \<open>showInt\<close> does.
\<close>

definition numberOrEmpty :: "int option \<Rightarrow> int option" where
  "numberOrEmpty x = (case x of None \<Rightarrow> None | Some n \<Rightarrow> if n = 0 then None else Some n)"

text \<open>\<open>xs || []\<close> on an array that may be absent\<close>

definition orNil :: "'a list option \<Rightarrow> 'a list" where
  "orNil xs = (case xs of None \<Rightarrow> [] | Some ys \<Rightarrow> ys)"

definition docToResult :: "doc \<Rightarrow> book \<Rightarrow> enriched" where
  "docToResult d originalBook =
     (let i13 = (case find (\<lambda>i. length i = 13) (orNil (isbn d)) of None \<Rightarrow> [] | Some i \<Rightarrow> i);
          i10 = (case find (\<lambda>i. length i = 10) (orNil (isbn d)) of None \<Rightarrow> [] | Some i \<Rightarrow> i);
          cover = (case numberOrEmpty (cover_i d) of
                     None \<Rightarrow> None
                   | Some c \<Rightarrow>
                       Some (''https://covers.openlibrary.org/b/id/'' @ showInt c @ ''-M.jpg''));
          authors = join '', '' (orNil (author_name d))
      in \<lparr>title = (if orEmpty (docTitle d) = [] then title originalBook else orEmpty (docTitle d)),
          author = (if authors = [] then author originalBook else authors),
          confidence = None,
          corrected = None,
          info = Some \<lparr>isbn13 = i13, isbn10 = i10, coverUrl = cover,
                   publishYear = numberOrEmpty (first_publish_year d),
                   publisherName = (case orNil (publisher d) of [] \<Rightarrow> [] | p # _ \<Rightarrow> p),
                   pages = numberOrEmpty (number_of_pages_median d),
                   subjects = join '', '' (take 3 (orNil (subject d)))\<rparr>,
          matched = True\<rparr>)"

text \<open>\<open>{ ...book, matched: false }\<close>\<close>

definition unmatched :: "book \<Rightarrow> enriched" where
  "unmatched b =
     \<lparr>title = title b, author = author b, confidence = confidence b, corrected = corrected b,
      info = None, matched = False\<rparr>"

text \<open>
  A search strategy. In the source \<open>query\<close> is a function without arguments that reads
  the book; here it is the string that the function returns.
\<close>

record strategy =
  query :: string
  useAuthorFilter :: bool
  titleField :: bool

text \<open>
  \<open>book.title.split(/[:\u2014\-\u2013]/)[0].trim()\<close>: the title up to its first
  separator. Of the four separators the colon and the hyphen are code units below U+0100.
\<close>

definition withoutSubtitle :: "string \<Rightarrow> string" where
  "withoutSubtitle t = trim (takeWhile (\<lambda>c. c \<noteq> CHR '':'' \<and> c \<noteq> CHR ''-'') t)"

definition strategies :: "book \<Rightarrow> strategy list" where
  "strategies b =
     [\<lparr>query = trim (title b @ '' '' @ (if author b \<noteq> ''Unknown'' then author b else [])),
       useAuthorFilter = True, titleField = False\<rparr>,
      \<lparr>query = title b, useAuthorFilter = True, titleField = False\<rparr>,
      \<lparr>query = title b, useAuthorFilter = True, titleField = True\<rparr>,
      \<lparr>query = withoutSubtitle (title b), useAuthorFilter = True, titleField = False\<rparr>,
      \<lparr>query = title b, useAuthorFilter = False, titleField = True\<rparr>,
      \<lparr>query = withoutSubtitle (title b), useAuthorFilter = False, titleField = False\<rparr>]"

text \<open>
  \<open>s.toLowerCase().replace(/[^a-z0-9\s]/g, "").split(/\s+/).filter(w => w.length > 2)\<close>,
  the \<open>normQ\<close> and \<open>normT\<close> of the title check
\<close>

definition titleWords :: "string \<Rightarrow> string list" where
  "titleWords s =
     filter (\<lambda>w. 2 < length w)
       (splitWs (filter (\<lambda>c. isLowerAZ c \<or> isDigit c \<or> isSpace c) (toLowerCase s)))"

text \<open>\<open>normQ.some(qw => normT.some(tw => tw.includes(qw) || qw.includes(tw)))\<close>\<close>

definition titleOverlap :: "string \<Rightarrow> string option \<Rightarrow> bool" where
  "titleOverlap q t =
     (\<exists>qw \<in> set (titleWords q). \<exists>tw \<in> set (titleWords (orEmpty t)).
        includesStr tw qw \<or> includesStr qw tw)"

text \<open>
  The title overlap as the specification words it: a word of the query is a substring of,
  or contains, a word of the candidate's title, the words being the lowercase alphanumeric
  words of at least 3 characters.
\<close>

definition titleOverlap_spec :: "string \<Rightarrow> string \<Rightarrow> bool" where
  "titleOverlap_spec q t =
     (\<exists>qw \<in> set (alphanumericWords q). \<exists>tw \<in> set (alphanumericWords t).
        sublist qw tw \<or> sublist tw qw)"

text \<open>
  The body of the loop over the documents: \<open>True\<close> where the body reaches its
  \<open>return\<close>, \<open>False\<close> where it leaves by one of its three \<open>continue\<close>.
\<close>

definition accepts :: "book \<Rightarrow> strategy \<Rightarrow> doc \<Rightarrow> bool" where
  "accepts b s d =
     (if isSummaryKnockoff (docTitle d) (Some (title b)) then False
      else if useAuthorFilter s \<and>
              \<not> authorsMatch (author b) (join '', '' (orNil (author_name d))) then False
      else if \<not> titleOverlap (query s) (docTitle d) \<and> 0 < length (titleWords (query s))
           then False
      else True)"

fun firstAccepted :: "book \<Rightarrow> strategy \<Rightarrow> doc list \<Rightarrow> doc option" where
  "firstAccepted b s [] = None"
| "firstAccepted b s (d # ds) = (if accepts b s d then Some d else firstAccepted b s ds)"

text \<open>
  The search service as the resolver sees it: what the search function gives back for the
  call of strategy number \<open>i\<close> (counted from 0), on the title field or not, with the given
  query. \<open>None\<close> stands for an attempt that raises before a document is accepted; the
  \<open>catch\<close> of the source then goes to the next strategy. Every call is taken to come
  back, with documents or by raising.
\<close>

type_synonym service = "nat \<Rightarrow> bool \<Rightarrow> string \<Rightarrow> doc list option"

text \<open>The loop over the strategies, from strategy number \<open>i\<close> on.\<close>

fun runStrategies :: "service \<Rightarrow> book \<Rightarrow> nat \<Rightarrow> strategy list \<Rightarrow> doc option" where
  "runStrategies svc b i [] = None"
| "runStrategies svc b i (s # ss) =
     (if query s = [] \<or> length (query s) < 2 then runStrategies svc b (Suc i) ss
      else
        (case svc i (titleField s) (query s) of
           None \<Rightarrow> runStrategies svc b (Suc i) ss
         | Some docs \<Rightarrow>
             (case firstAccepted b s docs of
                Some d \<Rightarrow> Some d
              | None \<Rightarrow> runStrategies svc b (Suc i) ss)))"

text \<open>The document that \<open>lookupOneBook\<close> accepts, if it accepts one.\<close>

definition acceptedDoc :: "service \<Rightarrow> book \<Rightarrow> doc option" where
  "acceptedDoc svc b = runStrategies svc b 0 (strategies b)"

definition lookupOneBook :: "service \<Rightarrow> book \<Rightarrow> enriched" where
  "lookupOneBook svc b =
     (case acceptedDoc svc b of Some d \<Rightarrow> docToResult d b | None \<Rightarrow> unmatched b)"

text \<open>
  The handler of \<open>POST /api/lookup\<close>. The body's \<open>books\<close> is \<open>None\<close> when it is not an
  array. The lookups run concurrently, each against the answers of the service to its own
  calls: \<open>svc i\<close> is the service as the lookup of the book at index \<open>i\<close> sees it.
  \<open>Promise.all\<close> gives the results in the order of the books.
\<close>

datatype response = Ok "enriched list" | BadRequest string

definition apiLookup :: "(nat \<Rightarrow> service) \<Rightarrow> book list option \<Rightarrow> response" where
  "apiLookup svc books =
     (case books of
        None \<Rightarrow> BadRequest ''books must be an array''
      | Some bs \<Rightarrow> Ok (map (\<lambda>i. lookupOneBook (svc i) (bs ! i)) [0..<length bs]))"

text \<open>
  One strategy gives nothing: it is skipped for its short query, or its search raises, or
  every document that it returns is rejected.
\<close>

definition fruitless :: "service \<Rightarrow> book \<Rightarrow> nat \<Rightarrow> strategy \<Rightarrow> bool" where
  "fruitless svc b i s \<longleftrightarrow>
     length (query s) < 2 \<or>
     (case svc i (titleField s) (query s) of
        None \<Rightarrow> True
      | Some docs \<Rightarrow> \<forall>d \<in> set docs. \<not> accepts b s d)"

text \<open>No candidate is accepted on any strategy of the cascade.\<close>

definition exhausted :: "service \<Rightarrow> book \<Rightarrow> bool" where
  "exhausted svc b \<longleftrightarrow>
     (\<forall>i < length (strategies b). fruitless svc b i (strategies b ! i))"

text \<open>Books, documents and services for the examples.\<close>

definition itBook :: book where
  "itBook = \<lparr>title = ''It'', author = ''Unknown'', confidence = Some ''high'',
     corrected = Some False\<rparr>"

definition duneDoc :: doc where
  "duneDoc = \<lparr>docTitle = Some ''Dune'', author_name = Some [''Frank Herbert''],
     isbn = Some [''9780441013593'', ''0441013597''], cover_i = Some 11481354,
     first_publish_year = Some 1965, publisher = Some [''Ace''],
     number_of_pages_median = Some 604, subject = Some [''Science fiction'']\<rparr>"

definition summaryDoc :: doc where
  "summaryDoc = \<lparr>docTitle = Some ''Summary of Dune'', author_name = Some [''Frank Herbert''],
     isbn = None, cover_i = None, first_publish_year = None, publisher = None,
     number_of_pages_median = None, subject = None\<rparr>"

definition duneService :: service where
  "duneService i byTitle q = Some [duneDoc]"

definition summaryService :: service where
  "summaryService i byTitle q = (if i = 2 then None else Some [summaryDoc])"

section \<open>The source's string functions in the words of the specification\<close>

lemma char_of_eq_iff: "n < 256 \<Longrightarrow> (c = char_of (n :: nat)) = (of_char c = n)"
  by (metis char_of_char of_char_of mod_less)

lemma isSpace_whiteSpace: "isSpace c = (c \<in> set whiteSpace)"
  by (auto simp: isSpace_def whiteSpace_def Let_def char_of_eq_iff)

lemma isLowerAZ_isLetter: "isLowerAZ c = isLetter c"
  by (simp add: isLowerAZ_def isLetter_def less_eq_char_def Let_def)

lemma isDigit_isNumeral: "isDigit c = isNumeral c"
  by (simp add: isDigit_def isNumeral_def less_eq_char_def Let_def)

lemma of_char_toLowerChar:
  "of_char (toLowerChar c) =
     (if (65 \<le> (of_char c :: nat) \<and> (of_char c :: nat) \<le> 90) \<or>
         (192 \<le> (of_char c :: nat) \<and> (of_char c :: nat) \<le> 222 \<and> (of_char c :: nat) \<noteq> 215)
      then of_char c + 32 else (of_char c :: nat))"
proof -
  have "(of_char c :: nat) < 256" by (rule nat_of_char_less_256)
  then show ?thesis by (auto simp: toLowerChar_def Let_def)
qed

lemma of_char_lowerOf:
  "of_char (lowerOf c) =
     (if 65 \<le> (of_char c :: nat) \<and> (of_char c :: nat) \<le> 90 then of_char c + 32
      else (of_char c :: nat))"
  by (auto simp: lowerOf_def isCapital_def less_eq_char_def)

lemma char_eqI: "(of_char a :: nat) = of_char b \<Longrightarrow> a = b"
  by (metis char_of_char)

lemma lower_keep:
  assumes "(of_char (lowerOf c) :: nat) < 192 \<or> (of_char (toLowerChar c) :: nat) < 192"
  shows "toLowerChar c = lowerOf c"
  using assms by (intro char_eqI) (auto simp: of_char_toLowerChar of_char_lowerOf split: if_splits)

lemma keep_alnum:
  "(isLowerAZ (toLowerChar c) \<or> isDigit (toLowerChar c)) = (isLetter (lowerOf c) \<or> isNumeral (lowerOf c))"
  by (simp add: isLowerAZ_def isDigit_def isLetter_def isNumeral_def less_eq_char_def Let_def
      of_char_toLowerChar of_char_lowerOf)

lemma keep_alpha_space:
  "(isLowerAZ (toLowerChar c) \<or> isSpace (toLowerChar c)) = (isLetter (lowerOf c) \<or> lowerOf c \<in> set whiteSpace)"
  by (simp add: isLowerAZ_def isSpace_whiteSpace [symmetric] isSpace_def isLetter_def less_eq_char_def Let_def
      of_char_toLowerChar of_char_lowerOf)

lemma filter_map_agree:
  assumes "\<And>c. P (f c) = Q (g c)" "\<And>c. Q (g c) \<Longrightarrow> f c = g c"
  shows "filter P (map f t) = filter Q (map g t)"
  using assms by (induction t) auto

lemma trim_no_space: "\<forall>c \<in> set s. \<not> isSpace c \<Longrightarrow> trim s = s"
proof -
  assume a: "\<forall>c \<in> set s. \<not> isSpace c"
  then have "dropWhile isSpace s = s" by (cases s) auto
  moreover from a have "dropWhile isSpace (rev s) = rev s" by (cases "rev s") auto
  ultimately show ?thesis by (simp add: trim_def)
qed

lemma letter_not_space: "isLetter c \<or> isNumeral c \<Longrightarrow> \<not> isSpace c"
  by (auto simp: isLetter_def isNumeral_def isSpace_def less_eq_char_def Let_def)

lemma lowerOf_letter_keep: "isLetter (lowerOf c) \<or> isNumeral (lowerOf c) \<or> lowerOf c \<in> set whiteSpace \<Longrightarrow> toLowerChar c = lowerOf c"
  by (rule lower_keep)
    (auto simp: isLetter_def isNumeral_def isSpace_whiteSpace [symmetric] isSpace_def less_eq_char_def Let_def)

lemma normalizeTitle_titleKey: "normalizeTitle t = titleKey t"
proof -
  have "filter (\<lambda>c. isLowerAZ c \<or> isDigit c) (map toLowerChar t) =
        filter (\<lambda>c. isLetter c \<or> isNumeral c) (map lowerOf t)"
    by (rule filter_map_agree) (auto simp: keep_alnum intro: lowerOf_letter_keep)
  moreover have "trim (titleKey t) = titleKey t"
    by (rule trim_no_space) (use letter_not_space in \<open>auto simp: titleKey_def\<close>)
  ultimately show ?thesis by (simp add: normalizeTitle_def toLowerCase_def titleKey_def)
qed

lemma wordsFrom_dropWhile: "wordsFrom [] (dropWhile isSpace s) = wordsFrom [] s"
  by (induction s) (auto simp: isSpace_whiteSpace)

lemma splitWs_nonempty: "splitWs t \<noteq> []"
  by (induction t rule: splitWs.induct) (auto split: list.splits)

lemma splitWs_wordsFrom:
  "filter (\<lambda>p. p \<noteq> []) (case splitWs t of p # ps \<Rightarrow> (w @ p) # ps | [] \<Rightarrow> []) = wordsFrom w t"
proof (induction t arbitrary: w rule: splitWs.induct)
  case 1
  show ?case by simp
next
  case (2 c cs)
  show ?case
  proof (cases "isSpace c")
    case True
    from "2.IH"(1) [OF True, of "[]"] splitWs_nonempty [of "dropWhile isSpace cs"]
    have "filter (\<lambda>p. p \<noteq> []) (splitWs (dropWhile isSpace cs)) = wordsFrom [] (dropWhile isSpace cs)"
      by (auto split: list.splits)
    with True show ?thesis by (simp add: wordsFrom_dropWhile isSpace_whiteSpace [symmetric])
  next
    case False
    from "2.IH"(2) [OF False, of "w @ [c]"] splitWs_nonempty [of cs] False
    show ?thesis by (auto split: list.splits simp: isSpace_whiteSpace [symmetric])
  qed
qed

lemma splitWs_wordsOf: "filter (\<lambda>p. p \<noteq> []) (splitWs t) = wordsOf t"
  using splitWs_wordsFrom [where t = t and w = "[]"] splitWs_nonempty [of t]
  by (auto simp: wordsOf_def split: list.splits)

lemma wordsFrom_trailing:
  "\<forall>c \<in> set sp. isSpace c \<Longrightarrow> wordsFrom w (s @ sp) = wordsFrom w s"
proof (induction s arbitrary: w)
  case Nil
  then show ?case by (induction sp arbitrary: w) (auto simp: isSpace_whiteSpace)
next
  case (Cons c s)
  then show ?case by simp
qed

lemma wordsOf_trim: "wordsOf (trim s) = wordsOf s"
proof -
  let ?d = "dropWhile isSpace s"
  have "?d = rev (dropWhile isSpace (rev ?d)) @ rev (takeWhile isSpace (rev ?d))"
    by (metis rev_append rev_rev_ident takeWhile_dropWhile_id)
  moreover have "\<forall>c \<in> set (rev (takeWhile isSpace (rev ?d))). isSpace c"
    by (auto dest: set_takeWhileD)
  ultimately have "wordsFrom [] ?d = wordsFrom [] (rev (dropWhile isSpace (rev ?d)))"
    by (metis wordsFrom_trailing)
  then show ?thesis by (simp add: wordsOf_def trim_def wordsFrom_dropWhile)
qed

lemma long_words: "filter (\<lambda>w. 2 < length w) xs = filter (\<lambda>w. 3 \<le> length w) (filter (\<lambda>p. p \<noteq> []) xs)"
  by (induction xs) auto

lemma nameWords_alphabeticWords: "nameWords s = alphabeticWords s"
proof -
  have "filter (\<lambda>c. isLowerAZ c \<or> isSpace c) (map toLowerChar s) =
        filter (\<lambda>c. isLetter c \<or> c \<in> set whiteSpace) (map lowerOf s)"
    by (rule filter_map_agree) (auto simp: keep_alpha_space intro: lowerOf_letter_keep)
  then show ?thesis
    by (simp add: nameWords_def norm_def alphabeticWords_def long_words splitWs_wordsOf
        wordsOf_trim toLowerCase_def)
qed

lemma keep_alnum_space:
  "(isLowerAZ (toLowerChar c) \<or> isDigit (toLowerChar c) \<or> isSpace (toLowerChar c)) =
   (isLetter (lowerOf c) \<or> isNumeral (lowerOf c) \<or> lowerOf c \<in> set whiteSpace)"
  using keep_alnum [of c] keep_alpha_space [of c] by blast

lemma titleWords_alphanumericWords: "titleWords s = alphanumericWords s"
proof -
  have "filter (\<lambda>c. isLowerAZ c \<or> isDigit c \<or> isSpace c) (map toLowerChar s) =
        filter (\<lambda>c. isLetter c \<or> isNumeral c \<or> c \<in> set whiteSpace) (map lowerOf s)"
    by (rule filter_map_agree) (auto simp: keep_alnum_space intro: lowerOf_letter_keep)
  then show ?thesis
    by (simp add: titleWords_def alphanumericWords_def long_words splitWs_wordsOf toLowerCase_def)
qed

lemma startsWith_prefix: "startsWith s p = prefix p s"
  by (auto simp: startsWith_def prefix_def) (metis append_eq_conv_conj)

lemma includesStr_sublist: "includesStr s p = sublist p s"
  by (induction s) (auto simp: sublist_Cons_right startsWith_prefix)

lemma lower_letter_eq:
  assumes "isLetter l \<or> l = CHR '' ''"
  shows "(toLowerChar c = l) = (lowerOf c = l)"
proof
  assume "toLowerChar c = l"
  with assms have "(of_char (toLowerChar c) :: nat) < 192"
    by (auto simp: isLetter_def less_eq_char_def)
  then have "toLowerChar c = lowerOf c" by (intro lower_keep) simp
  with \<open>toLowerChar c = l\<close> show "lowerOf c = l" by simp
next
  assume "lowerOf c = l"
  with assms have "(of_char (lowerOf c) :: nat) < 192"
    by (auto simp: isLetter_def less_eq_char_def)
  then have "toLowerChar c = lowerOf c" by (intro lower_keep) simp
  with \<open>lowerOf c = l\<close> show "toLowerChar c = l" by simp
qed

lemma prefix_lower:
  "\<forall>l \<in> set p. isLetter l \<or> l = CHR '' '' \<Longrightarrow>
   prefix p (map toLowerChar s) = prefix p (map lowerOf s)"
proof (induction p arbitrary: s)
  case Nil
  show ?case by simp
next
  case (Cons l p)
  show ?case
  proof (cases s)
    case Nil
    then show ?thesis by simp
  next
    case (Cons c cs)
    from Cons.prems have "(toLowerChar c = l) = (lowerOf c = l)" by (intro lower_letter_eq) simp
    moreover from Cons.prems have "prefix p (map toLowerChar cs) = prefix p (map lowerOf cs)"
      by (intro Cons.IH) simp
    ultimately show ?thesis using Cons by auto
  qed
qed

lemma startsWith_ignoringCase:
  "\<forall>l \<in> set p. isLetter l \<or> l = CHR '' '' \<Longrightarrow>
   startsWith (toLowerCase s) p = startsWithIgnoringCase s p"
  by (simp add: startsWith_prefix toLowerCase_def startsWithIgnoringCase_def prefix_lower)

lemma bookKey_claimedKey: "bookKey b = claimedKey b"
  by (simp add: bookKey_def claimedKey_def normalizeTitle_titleKey)

lemma titleOverlap_titleOverlap_spec: "titleOverlap q t = titleOverlap_spec q (orEmpty t)"
  by (simp add: titleOverlap_def titleOverlap_spec_def titleWords_alphanumericWords
      includesStr_sublist)

section \<open>Properties of the deduplication\<close>

lemma mapGet_None_iff: "mapGet m k = None \<longleftrightarrow> k \<notin> fst ` set m"
  by (induction m) force+

lemma mapGet_Some_mem: "mapGet m k = Some v \<Longrightarrow> (k, v) \<in> set m"
  by (induction m) (auto split: if_splits)

lemma mapGet_distinct: "distinct (map fst m) \<Longrightarrow> (k, v) \<in> set m \<Longrightarrow> mapGet m k = Some v"
  by (induction m) force+

lemma mapSet_fresh: "k \<notin> fst ` set m \<Longrightarrow> mapSet m k v = m @ [(k, v)]"
  by (induction m) auto

lemma map_fst_mapSet:
  "map fst (mapSet m k v) = (if k \<in> fst ` set m then map fst m else map fst m @ [k])"
  by (induction m) force+

lemma set_mapSet_present:
  "distinct (map fst m) \<Longrightarrow> (k, old) \<in> set m \<Longrightarrow>
   set (mapSet m k v) = insert (k, v) (set m - {(k, old)})"
proof (induction m)
  case Nil
  then show ?case by simp
next
  case (Cons p m)
  obtain k' v' where p: "p = (k', v')" by (cases p)
  show ?case
  proof (cases "k' = k")
    case True
    with Cons.prems p have "old = v'" "(k, old) \<notin> set m" by force+
    with True p show ?thesis by auto
  next
    case False
    with Cons.prems p have "(k, old) \<in> set m" "distinct (map fst m)" by auto
    from Cons.IH [OF this(2) this(1)] False p show ?thesis by auto
  qed
qed

lemma wfMap_mapSet:
  "wfMap m \<Longrightarrow> bookKey b \<noteq> [] \<Longrightarrow> wfMap (mapSet m (bookKey b) b)"
proof (cases "bookKey b \<in> fst ` set m")
  case False
  assume "wfMap m" "bookKey b \<noteq> []"
  with False show ?thesis by (auto simp: wfMap_def mapSet_fresh)
next
  case True
  assume wf: "wfMap m" and ne: "bookKey b \<noteq> []"
  from True obtain old where old: "(bookKey b, old) \<in> set m" by force
  from wf have d: "distinct (map fst m)" by (simp add: wfMap_def)
  from wf d True old ne show ?thesis
    by (auto simp: wfMap_def map_fst_mapSet set_mapSet_present [OF d old])
qed

lemma wfMap_step: "wfMap m \<Longrightarrow> wfMap (dedupStep m b)"
  using wfMap_mapSet [of m b]
  by (auto simp: dedupStep_def Let_def bookKey_def split: option.splits)

lemma wfMap_foldl: "wfMap m \<Longrightarrow> wfMap (foldl dedupStep m xs)"
  by (induction xs arbitrary: m) (auto simp: wfMap_step)

lemma foldl_dedupStep_fresh:
  "distinct (map bookKey ys) \<Longrightarrow> \<forall>b \<in> set ys. bookKey b \<noteq> [] \<Longrightarrow>
   bookKey ` set ys \<inter> fst ` set m = {} \<Longrightarrow>
   foldl dedupStep m ys = m @ map (\<lambda>b. (bookKey b, b)) ys"
proof (induction ys arbitrary: m)
  case Nil
  then show ?case by simp
next
  case (Cons y ys)
  from Cons.prems have fresh: "bookKey y \<notin> fst ` set m" and ne: "bookKey y \<noteq> []" by auto
  then have step: "dedupStep m y = m @ [(bookKey y, y)]"
    by (simp add: dedupStep_def bookKey_def [symmetric] mapGet_None_iff [THEN iffD2] mapSet_fresh)
  from Cons.prems have "bookKey ` set ys \<inter> fst ` set (m @ [(bookKey y, y)]) = {}"
    by auto
  with Cons.IH [of "m @ [(bookKey y, y)]"] Cons.prems step show ?case by simp
qed

lemma wfMap_fixed: "wfMap m \<Longrightarrow> foldl dedupStep [] (map snd m) = m"
proof -
  assume wf: "wfMap m"
  then have keys: "map bookKey (map snd m) = map fst m"
    by (auto simp: wfMap_def)
  have ents: "map (\<lambda>b. (bookKey b, b)) (map snd m) = m"
    using wf by (auto simp: wfMap_def intro!: map_idI)
  from wf have "distinct (map fst m)" by (simp add: wfMap_def)
  with keys have "distinct (map bookKey (map snd m))" by (simp only:)
  moreover from wf have "\<forall>b \<in> set (map snd m). bookKey b \<noteq> []" by (auto simp: wfMap_def)
  ultimately have "foldl dedupStep [] (map snd m) = [] @ map (\<lambda>b. (bookKey b, b)) (map snd m)"
    by (intro foldl_dedupStep_fresh) auto
  with ents show ?thesis by simp
qed

lemma confRank_plain: "\<not> inheritsRank c \<Longrightarrow> confRank c = Num (confidenceRank c)"
  by (auto simp: inheritsRank_def confRank_def confidenceRank_def Let_def split: option.splits)

lemma find_snoc:
  "find P (xs @ [x]) = (case find P xs of None \<Rightarrow> (if P x then Some x else None) | Some y \<Rightarrow> Some y)"
  by (induction xs) auto

lemma best_snoc_other: "best xs k e \<Longrightarrow> bookKey x \<noteq> k \<Longrightarrow> best (xs @ [x]) k e"
  by (auto simp: best_def find_snoc)

lemma best_snoc_le: "best xs k e \<Longrightarrow> rk x \<le> rk e \<Longrightarrow> best (xs @ [x]) k e"
  by (auto simp: best_def find_snoc)

lemma best_snoc_new:
  "\<forall>b \<in> set xs. bookKey b = bookKey x \<longrightarrow> rk b < rk x \<Longrightarrow> best (xs @ [x]) (bookKey x) x"
proof -
  assume lt: "\<forall>b \<in> set xs. bookKey b = bookKey x \<longrightarrow> rk b < rk x"
  then have "find (\<lambda>b. bookKey b = bookKey x \<and> rk b = rk x) xs = None"
    by (auto simp: find_None_iff)
  with lt show ?thesis by (auto simp: best_def find_snoc less_imp_le)
qed

lemma keepsD_best: "keeps xs m \<Longrightarrow> (k, e) \<in> set m \<Longrightarrow> best xs k e"
  unfolding keeps_def by blast

lemma keepsD_key: "keeps xs m \<Longrightarrow> (k, e) \<in> set m \<Longrightarrow> k \<noteq> [] \<and> k \<in> bookKey ` set xs"
  unfolding keeps_def by (metis fst_conv imageI)

lemma keeps_skip:
  assumes inv: "keeps xs m" and emp: "bookKey x = []"
  shows "keeps (xs @ [x]) m"
proof -
  have "best (xs @ [x]) k e" if "(k, e) \<in> set m" for k e
  proof -
    from keepsD_key [OF inv that] emp have "bookKey x \<noteq> k" by auto
    with keepsD_best [OF inv that] show ?thesis by (rule best_snoc_other)
  qed
  moreover from inv emp
  have "\<forall>k. k \<in> fst ` set m \<longleftrightarrow> k \<noteq> [] \<and> k \<in> bookKey ` set (xs @ [x])"
    unfolding keeps_def by auto
  moreover from inv have "distinct (map fst m)" by (simp add: keeps_def)
  ultimately show ?thesis unfolding keeps_def by blast
qed

lemma keeps_append:
  assumes inv: "keeps xs m" and ne: "bookKey x \<noteq> []" and fresh: "bookKey x \<notin> fst ` set m"
  shows "keeps (xs @ [x]) (m @ [(bookKey x, x)])"
proof -
  from inv fresh ne have "\<forall>b \<in> set xs. bookKey b \<noteq> bookKey x"
    unfolding keeps_def by (metis imageI)
  then have new: "best (xs @ [x]) (bookKey x) x" by (intro best_snoc_new) auto
  have old: "best (xs @ [x]) k e" if "(k, e) \<in> set m" for k e
  proof -
    from that fresh have "bookKey x \<noteq> k" by force
    with keepsD_best [OF inv that] show ?thesis by (rule best_snoc_other)
  qed
  from new old have "\<forall>k e. (k, e) \<in> set (m @ [(bookKey x, x)]) \<longrightarrow> best (xs @ [x]) k e"
    by auto
  moreover from inv ne
  have "\<forall>k. k \<in> fst ` set (m @ [(bookKey x, x)]) \<longleftrightarrow> k \<noteq> [] \<and> k \<in> bookKey ` set (xs @ [x])"
    unfolding keeps_def by auto
  moreover from inv fresh have "distinct (map fst (m @ [(bookKey x, x)]))"
    by (simp add: keeps_def)
  ultimately show ?thesis unfolding keeps_def by blast
qed

lemma keeps_unique: "keeps xs m \<Longrightarrow> (k, e) \<in> set m \<Longrightarrow> (k, e') \<in> set m \<Longrightarrow> e' = e"
  unfolding keeps_def by (metis mapGet_distinct option.inject)

lemma keeps_retain:
  assumes inv: "keeps xs m" and mem: "(bookKey x, e) \<in> set m" and le: "rk x \<le> rk e"
  shows "keeps (xs @ [x]) m"
proof -
  have "best (xs @ [x]) k b" if kb: "(k, b) \<in> set m" for k b
  proof (cases "k = bookKey x")
    case True
    with kb mem inv have "b = e" by (metis keeps_unique)
    with keepsD_best [OF inv mem] le True show ?thesis by (simp add: best_snoc_le)
  next
    case False
    then have "bookKey x \<noteq> k" by simp
    with keepsD_best [OF inv kb] show ?thesis by (rule best_snoc_other)
  qed
  moreover from mem have "bookKey x \<in> fst ` set m" by force
  with inv have "\<forall>k. k \<in> fst ` set m \<longleftrightarrow> k \<noteq> [] \<and> k \<in> bookKey ` set (xs @ [x])"
    unfolding keeps_def by auto
  moreover from inv have "distinct (map fst m)" by (simp add: keeps_def)
  ultimately show ?thesis unfolding keeps_def by blast
qed

lemma keeps_replace:
  assumes inv: "keeps xs m" and mem: "(bookKey x, e) \<in> set m" and lt: "rk e < rk x"
  shows "keeps (xs @ [x]) (mapSet m (bookKey x) x)"
proof -
  from inv have d: "distinct (map fst m)" by (simp add: keeps_def)
  from mem have inkeys: "bookKey x \<in> fst ` set m" by force
  have sets: "set (mapSet m (bookKey x) x) = insert (bookKey x, x) (set m - {(bookKey x, e)})"
    by (rule set_mapSet_present [OF d mem])
  from keepsD_best [OF inv mem] lt
  have "\<forall>b \<in> set xs. bookKey b = bookKey x \<longrightarrow> rk b < rk x"
    by (auto simp: best_def)
  then have new: "best (xs @ [x]) (bookKey x) x" by (rule best_snoc_new)
  have "best (xs @ [x]) k b" if kb: "(k, b) \<in> set (mapSet m (bookKey x) x)" for k b
  proof (cases "(k, b) = (bookKey x, x)")
    case True
    with new show ?thesis by simp
  next
    case False
    with kb sets have in_m: "(k, b) \<in> set m" and neq: "(k, b) \<noteq> (bookKey x, e)" by auto
    have "bookKey x \<noteq> k"
    proof
      assume "bookKey x = k"
      with in_m mem inv have "b = e" by (metis keeps_unique)
      with neq \<open>bookKey x = k\<close> show False by simp
    qed
    with keepsD_best [OF inv in_m] show ?thesis by (rule best_snoc_other)
  qed
  moreover from inkeys have keys: "map fst (mapSet m (bookKey x) x) = map fst m"
    by (simp add: map_fst_mapSet)
  from inv inkeys
  have "\<forall>k. k \<in> fst ` set m \<longleftrightarrow> k \<noteq> [] \<and> k \<in> bookKey ` set (xs @ [x])"
    unfolding keeps_def by auto
  then have "\<forall>k. k \<in> set (map fst (mapSet m (bookKey x) x)) \<longleftrightarrow> k \<noteq> [] \<and> k \<in> bookKey ` set (xs @ [x])"
    unfolding keys by simp
  then have "\<forall>k. k \<in> fst ` set (mapSet m (bookKey x) x) \<longleftrightarrow> k \<noteq> [] \<and> k \<in> bookKey ` set (xs @ [x])"
    by (simp only: set_map) simp
  moreover from d keys have "distinct (map fst (mapSet m (bookKey x) x))" by simp
  ultimately show ?thesis unfolding keeps_def by blast
qed

lemma keeps_step:
  assumes inv: "keeps xs m" and plain: "\<forall>b \<in> set (xs @ [x]). \<not> inheritsRank (confidence b)"
  shows "keeps (xs @ [x]) (dedupStep m x)"
proof (cases "bookKey x = []")
  case True
  then have "dedupStep m x = m" by (simp add: dedupStep_def bookKey_def)
  with keeps_skip [OF inv True] show ?thesis by simp
next
  case ne: False
  show ?thesis
  proof (cases "mapGet m (bookKey x)")
    case None
    then have fresh: "bookKey x \<notin> fst ` set m" by (simp add: mapGet_None_iff)
    with ne None have "dedupStep m x = m @ [(bookKey x, x)]"
      by (simp add: dedupStep_def bookKey_def [symmetric] mapSet_fresh)
    with keeps_append [OF inv ne fresh] show ?thesis by simp
  next
    case (Some e)
    then have mem: "(bookKey x, e) \<in> set m" by (rule mapGet_Some_mem)
    from keepsD_best [OF inv mem] have "e \<in> set xs" by (simp add: best_def)
    with plain have pe: "confRank (confidence e) = Num (rk e)" by (simp add: confRank_plain)
    from plain have px: "confRank (confidence x) = Num (rk x)" by (simp add: confRank_plain)
    show ?thesis
    proof (cases "rk e < rk x")
      case True
      with ne Some pe px have "dedupStep m x = mapSet m (bookKey x) x"
        by (simp add: dedupStep_def bookKey_def [symmetric])
      with keeps_replace [OF inv mem True] show ?thesis by simp
    next
      case False
      with ne Some pe px have "dedupStep m x = m"
        by (simp add: dedupStep_def bookKey_def [symmetric])
      moreover from False have "rk x \<le> rk e" by simp
      ultimately show ?thesis using keeps_retain [OF inv mem] by simp
    qed
  qed
qed

lemma keeps_foldl:
  "\<forall>b \<in> set xs. \<not> inheritsRank (confidence b) \<Longrightarrow> keeps xs (foldl dedupStep [] xs)"
proof (induction xs rule: rev_induct)
  case Nil
  show ?case by (simp add: keeps_def)
next
  case (snoc x xs)
  then have "keeps xs (foldl dedupStep [] xs)" by simp
  from keeps_step [OF this snoc.prems] show ?case by simp
qed

lemma bookKey_duneHigh: "bookKey duneHigh = ''dune''"
  by code_simp

lemma bookKey_duneLow: "bookKey duneLow = ''dune''"
  by code_simp

lemma bookKey_noTitle: "bookKey noTitle = []"
  by code_simp

lemma dedup_low_high:
  assumes "bookKey lo = bookKey hi" "bookKey lo \<noteq> []"
    and "confidence lo = Some ''low''" "confidence hi = Some ''high''"
  shows "deduplicateBooks [lo, hi] = [hi]" and "deduplicateBooks [hi, lo] = [hi]"
  using assms
  by (simp_all add: deduplicateBooks_def dedupStep_def bookKey_def [symmetric] confRank_def)

text \<open>
  C9: the deduplication is idempotent: running it on its own output gives that output again.
\<close>

theorem deduplicateBooks_idempotent:
  "deduplicateBooks (deduplicateBooks xs) = deduplicateBooks xs"
proof -
  have "wfMap (foldl dedupStep [] xs)" by (rule wfMap_foldl) (simp add: wfMap_def)
  then show ?thesis by (simp add: deduplicateBooks_def wfMap_fixed)
qed

lemma keeps_best_bookKey:
  assumes "\<forall>b \<in> set xs. \<not> inheritsRank (confidence b)"
  shows "distinct (map bookKey (deduplicateBooks xs)) \<and>
     set (map bookKey (deduplicateBooks xs)) = bookKey ` set xs - {[]} \<and>
     (\<forall>e \<in> set (deduplicateBooks xs).
        e \<in> set xs \<and> (\<forall>b \<in> set xs. bookKey b = bookKey e \<longrightarrow> rk b \<le> rk e) \<and>
        find (\<lambda>b. bookKey b = bookKey e \<and> rk b = rk e) xs = Some e) \<and>
     (bookKey lo = bookKey hi \<and> bookKey lo \<noteq> [] \<and>
      confidence lo = Some ''low'' \<and> confidence hi = Some ''high'' \<longrightarrow>
        deduplicateBooks [lo, hi] = [hi] \<and> deduplicateBooks [hi, lo] = [hi])"
proof -
  let ?m = "foldl dedupStep [] xs"
  have k: "keeps xs ?m" by (rule keeps_foldl [OF assms])
  have entry: "(bookKey e, e) \<in> set ?m \<and> best xs (bookKey e) e" if "e \<in> set (deduplicateBooks xs)" for e
  proof -
    from that obtain k' where mem: "(k', e) \<in> set ?m" by (auto simp: deduplicateBooks_def)
    from keepsD_best [OF k mem] have "bookKey e = k'" by (simp add: best_def)
    with mem keepsD_best [OF k mem] show ?thesis by simp
  qed
  have keys: "map bookKey (deduplicateBooks xs) = map fst ?m"
  proof -
    have "bookKey (snd p) = fst p" if "p \<in> set ?m" for p
      using keepsD_best [OF k, of "fst p" "snd p"] that by (simp add: best_def)
    then show ?thesis by (simp add: deduplicateBooks_def)
  qed
  from k have "distinct (map fst ?m)" by (simp add: keeps_def)
  with keys have c1: "distinct (map bookKey (deduplicateBooks xs))" by simp
  from k have "fst ` set ?m = bookKey ` set xs - {[]}" unfolding keeps_def by blast
  with keys have c2: "set (map bookKey (deduplicateBooks xs)) = bookKey ` set xs - {[]}"
    by (simp only: set_map)
  have c3: "\<forall>e \<in> set (deduplicateBooks xs).
        e \<in> set xs \<and> (\<forall>b \<in> set xs. bookKey b = bookKey e \<longrightarrow> rk b \<le> rk e) \<and>
        find (\<lambda>b. bookKey b = bookKey e \<and> rk b = rk e) xs = Some e"
    using entry by (simp add: best_def)
  from c1 c2 c3 dedup_low_high [of lo hi] show ?thesis by blast
qed

text \<open>
  C4: on detections whose confidence finds no inherited property (so on every detection of
  the data model, whose confidence is high, medium or low), the key of the source is the
  title lowercased with every non-alphanumeric character stripped, and with the keys so
  worded: the result has exactly one entry for each non-empty key of the input and none for
  the empty one; each entry is a detection of the input that has the greatest rank among
  those with its key and is the first of that rank; and of a "low" and a "high" detection
  with the same non-empty key the "high" one is kept, in either order.
\<close>

theorem deduplicateBooks_keeps_best:
  assumes "\<forall>b \<in> set xs. \<not> inheritsRank (confidence b)"
  shows "normalizeTitle t = titleKey t \<and>
     distinct (map claimedKey (deduplicateBooks xs)) \<and>
     set (map claimedKey (deduplicateBooks xs)) = claimedKey ` set xs - {[]} \<and>
     (\<forall>e \<in> set (deduplicateBooks xs).
        e \<in> set xs \<and> (\<forall>b \<in> set xs. claimedKey b = claimedKey e \<longrightarrow> rk b \<le> rk e) \<and>
        find (\<lambda>b. claimedKey b = claimedKey e \<and> rk b = rk e) xs = Some e) \<and>
     (claimedKey lo = claimedKey hi \<and> claimedKey lo \<noteq> [] \<and>
      confidence lo = Some ''low'' \<and> confidence hi = Some ''high'' \<longrightarrow>
        deduplicateBooks [lo, hi] = [hi] \<and> deduplicateBooks [hi, lo] = [hi])"
proof -
  have same: "bookKey = claimedKey" by (rule ext) (rule bookKey_claimedKey)
  from normalizeTitle_titleKey [of t] keeps_best_bookKey [OF assms, of lo hi, unfolded same]
  show ?thesis by (rule conjI)
qed

theorem deduplicateBooks_keeps_best_witness:
  "\<not> inheritsRank (confidence duneLow) \<and> \<not> inheritsRank (confidence noTitle) \<and>
   \<not> inheritsRank (confidence duneHigh) \<and> \<not> inheritsRank (confidence emmaMedium) \<and>
   claimedKey duneLow = claimedKey duneHigh \<and> claimedKey duneLow \<noteq> [] \<and>
   confidence duneLow = Some ''low'' \<and> confidence duneHigh = Some ''high'' \<and>
   normalizeTitle ''Dune: Part 2!'' = titleKey ''Dune: Part 2!'' \<and>
   titleKey ''Dune: Part 2!'' = ''dunepart2'' \<and>
   claimedKey duneHigh = ''dune'' \<and> claimedKey noTitle = [] \<and> claimedKey emmaMedium = ''emma'' \<and>
   distinct (map claimedKey (deduplicateBooks [duneLow, noTitle, duneHigh, emmaMedium])) \<and>
   set (map claimedKey (deduplicateBooks [duneLow, noTitle, duneHigh, emmaMedium])) =
     {''dune'', ''emma''} \<and>
   deduplicateBooks [duneLow, noTitle, duneHigh, emmaMedium] = [duneHigh, emmaMedium] \<and>
   deduplicateBooks [duneLow, duneHigh] = [duneHigh] \<and>
   deduplicateBooks [duneHigh, duneLow] = [duneHigh]"
proof -
  have h1: "\<not> inheritsRank (confidence duneLow)"
    and h2: "\<not> inheritsRank (confidence noTitle)"
    and h3: "\<not> inheritsRank (confidence duneHigh)"
    and h4: "\<not> inheritsRank (confidence emmaMedium)"
    by (simp_all add: duneLow_def noTitle_def duneHigh_def emmaMedium_def inheritsRank_def
        objectPrototypeFunctions_def)
  then have h: "\<forall>b \<in> set [duneLow, noTitle, duneHigh, emmaMedium].
      \<not> inheritsRank (confidence b)"
    by simp
  have k1: "claimedKey duneLow = ''dune''" and k2: "claimedKey duneHigh = ''dune''"
    and k3: "claimedKey noTitle = []" and k4: "claimedKey emmaMedium = ''emma''"
    and k5: "titleKey ''Dune: Part 2!'' = ''dunepart2''"
    by code_simp+
  have p1: "claimedKey duneLow = claimedKey duneHigh" and p2: "claimedKey duneLow \<noteq> []"
    by (simp_all add: k1 k2)
  have p3: "confidence duneLow = Some ''low''" and p4: "confidence duneHigh = Some ''high''"
    by (simp_all add: duneLow_def duneHigh_def)
  have s: "claimedKey ` set [duneLow, noTitle, duneHigh, emmaMedium] - {[]} = {''dune'', ''emma''}"
    by (simp add: k1 k2 k3 k4 insert_Diff_if)
  have d: "deduplicateBooks [duneLow, noTitle, duneHigh, emmaMedium] = [duneHigh, emmaMedium]"
    by code_simp
  note t = deduplicateBooks_keeps_best [OF h, of "''Dune: Part 2!''" duneLow duneHigh]
  note c0 = t [THEN conjunct1]
  note c1 = t [THEN conjunct2, THEN conjunct1]
  note c2 = t [THEN conjunct2, THEN conjunct2, THEN conjunct1, unfolded s]
  note c4 = t [THEN conjunct2, THEN conjunct2, THEN conjunct2, THEN conjunct2, THEN mp,
      OF conjI [OF p1 conjI [OF p2 conjI [OF p3 p4]]]]
  show ?thesis
    by (intro conjI [OF h1] conjI [OF h2] conjI [OF h3] conjI [OF h4] conjI [OF p1]
        conjI [OF p2] conjI [OF p3] conjI [OF p4] conjI [OF c0] conjI [OF k5] conjI [OF k2]
        conjI [OF k3] conjI [OF k4] conjI [OF c1] conjI [OF c2] conjI [OF d] c4)
qed

lemma dedupStep_unrecognized_keeps:
  assumes "mapGet m (bookKey b) = Some e"
    and "\<not> inheritsRank (confidence b)" "\<not> inheritsRank (confidence e)"
    and "confidenceRank (confidence b) = 0"
  shows "dedupStep m b = m"
  using assms by (simp add: dedupStep_def Let_def bookKey_def [symmetric] confRank_plain)

lemma dedupStep_recognized_replaces:
  assumes "mapGet m (bookKey b) = Some e" "bookKey b \<noteq> []"
    and "\<not> inheritsRank (confidence b)" "\<not> inheritsRank (confidence e)"
    and "confidenceRank (confidence e) = 0" "0 < confidenceRank (confidence b)"
  shows "dedupStep m b = mapSet m (bookKey b) b"
  using assms by (simp add: dedupStep_def Let_def bookKey_def [symmetric] confRank_plain)

text \<open>
  C10: a confidence that is the name of a property inherited from \<open>Object.prototype\<close> is
  not ranked 0. A kept detection with the confidence "constructor" is not replaced by a
  later duplicate of confidence "high", and a detection with the confidence "constructor"
  replaces a kept one with the confidence "__proto__".
\<close>

theorem deduplicateBooks_inherited_rank:
  "bookKey duneInherited = bookKey duneHigh \<and> bookKey duneProto = bookKey duneInherited \<and>
   deduplicateBooks [duneInherited, duneHigh] = [duneInherited] \<and>
   deduplicateBooks [duneProto, duneInherited] = [duneInherited]"
  by code_simp

section \<open>Properties of the partitioner\<close>






lemma nth_grid:
  "r < n \<Longrightarrow> j < c \<Longrightarrow>
   concat (map (\<lambda>row. map (f row) [0..<c]) [0..<n]) ! (r * c + j) = f r j"
proof (induction n arbitrary: r)
  case 0
  then show ?case by simp
next
  case (Suc n)
  have len: "length (concat (map (\<lambda>row. map (f row) [0..<c]) [0..<n])) = n * c"
    by (induction n) auto
  show ?case
  proof (cases "r < n")
    case True
    then have "Suc r \<le> n" by simp
    then have "Suc r * c \<le> n * c" by (rule mult_le_mono1)
    with Suc.prems(2) have "r * c + j < n * c" by simp
    with True Suc show ?thesis by (simp add: nth_append len)
  next
    case False
    with Suc.prems have "r = n" by simp
    with Suc.prems show ?thesis by (simp add: nth_append len)
  qed
qed

lemma regionAt_cell:
  assumes "\<not> (w < 1200 \<and> h < 1200)" "inGrid w h ov row col"
  shows "regionAt w h ov row col =
     cellRegion w h (gridCols (bookCountOf ov) w) (gridRows (shelvesOf ov) h) row col"
proof -
  from assms(1) have "tileImage w h ov =
      concat (map (\<lambda>row. map (\<lambda>col. cellRegion w h (gridCols (bookCountOf ov) w)
          (gridRows (shelvesOf ov) h) row col) [0..<gridCols (bookCountOf ov) w])
        [0..<gridRows (shelvesOf ov) h])"
    by (simp only: tileImage_def Let_def if_False)
  moreover from assms(2) have "row < gridRows (shelvesOf ov) h" "col < gridCols (bookCountOf ov) w"
    by (simp_all add: inGrid_def)
  ultimately show ?thesis
    by (simp only: regionAt_def nth_grid)
qed





text \<open>
  What the regions do cover: a small image whole, and of a tiled image every pixel inside
  the grid of \<open>cols\<close> by \<open>rows\<close> cells. The grid ends at \<open>cols * cellW\<close> and
  \<open>rows * cellH\<close>, which is short of the image where the cell size was rounded down.
\<close>

lemma overlapPad_nonneg: "0 \<le> c \<Longrightarrow> 0 \<le> overlapPad c"
  unfolding overlapPad_def by presburger

lemma cellRegion_covers:
  assumes x: "0 \<le> x" "x < w" and y: "0 \<le> y" "y < h"
    and cw: "0 < roundDiv w (int cols)" and ch: "0 < roundDiv h (int rows)"
    and col: "int col * roundDiv w (int cols) \<le> x" "x < (int col + 1) * roundDiv w (int cols)"
    and row: "int row * roundDiv h (int rows) \<le> y" "y < (int row + 1) * roundDiv h (int rows)"
  shows "covers (cellRegion w h cols rows row col) x y"
proof -
  from cw have pw: "0 \<le> overlapPad (roundDiv w (int cols))" by (simp add: overlapPad_nonneg)
  from ch have ph: "0 \<le> overlapPad (roundDiv h (int rows))" by (simp add: overlapPad_nonneg)
  from x col pw have "max 0 (int col * roundDiv w (int cols)
        - (if 0 < col then overlapPad (roundDiv w (int cols)) else 0)) \<le> x"
    by auto
  moreover from x col pw have "x < min w ((int col + 1) * roundDiv w (int cols)
        + (if col + 1 < cols then overlapPad (roundDiv w (int cols)) else 0))"
    by auto
  moreover from y row ph have "max 0 (int row * roundDiv h (int rows)
        - (if 0 < row then overlapPad (roundDiv h (int rows)) else 0)) \<le> y"
    by auto
  moreover from y row ph have "y < min h ((int row + 1) * roundDiv h (int rows)
        + (if row + 1 < rows then overlapPad (roundDiv h (int rows)) else 0))"
    by auto
  ultimately show ?thesis
    by (simp add: covers_def cellRegion_def Let_def)
qed

lemma cell_index:
  assumes "0 \<le> x" "x < int n * c"
  shows "0 < c \<and> nat (x div c) < n \<and> int (nat (x div c)) * c \<le> x \<and>
         x < (int (nat (x div c)) + 1) * c"
proof -
  from assms have c: "0 < c"
    by (metis mult_less_0_iff not_less of_nat_0_le_iff order.strict_trans1 zero_less_mult_iff less_le)
  with assms(1) have q: "0 \<le> x div c" by (simp add: pos_imp_zdiv_nonneg_iff)
  have eq: "x = (x div c) * c + x mod c" by simp
  from c have m: "0 \<le> x mod c" "x mod c < c" by simp_all
  from eq m have lo: "(x div c) * c \<le> x" by linarith
  have "(x div c + 1) * c = (x div c) * c + c" by (simp add: algebra_simps)
  with eq m have hi: "x < (x div c + 1) * c" by linarith
  have "x div c < int n"
  proof (rule ccontr)
    assume "\<not> x div c < int n"
    then have "int n * c \<le> (x div c) * c" using c by (simp add: mult_right_mono)
    with lo assms(2) show False by simp
  qed
  with q lo hi c show ?thesis by simp
qed

lemma tileImage_covers_grid:
  assumes tiled: "\<not> (w < 1200 \<and> h < 1200)"
    and x: "0 \<le> x" "x < w" "x < int (gridCols (bookCountOf ov) w) * roundDiv w (int (gridCols (bookCountOf ov) w))"
    and y: "0 \<le> y" "y < h" "y < int (gridRows (shelvesOf ov) h) * roundDiv h (int (gridRows (shelvesOf ov) h))"
  shows "\<exists>r \<in> set (tileImage w h ov). covers r x y"
proof -
  let ?cols = "gridCols (bookCountOf ov) w" and ?rows = "gridRows (shelvesOf ov) h"
  let ?col = "nat (x div roundDiv w (int ?cols))" and ?row = "nat (y div roundDiv h (int ?rows))"
  note cx = cell_index [OF x(1) x(3)] and cy = cell_index [OF y(1) y(3)]
  from cx cy have g: "inGrid w h ov ?row ?col" by (simp add: inGrid_def)
  have "covers (cellRegion w h ?cols ?rows ?row ?col) x y"
    using x(1,2) y(1,2) cx cy by (intro cellRegion_covers) simp_all
  with regionAt_cell [OF tiled g] have c: "covers (regionAt w h ov ?row ?col) x y" by simp
  from tiled have len: "length (tileImage w h ov) = ?rows * ?cols"
  proof -
    have "length (concat (map (\<lambda>row. map (f row) [0..<c]) [0..<n])) = n * c" for f :: "nat \<Rightarrow> nat \<Rightarrow> region" and c n
      by (induction n) auto
    moreover from tiled have "tileImage w h ov =
      concat (map (\<lambda>row. map (\<lambda>col. cellRegion w h ?cols ?rows row col) [0..<?cols]) [0..<?rows])"
      by (simp only: tileImage_def Let_def if_False)
    ultimately show ?thesis by (simp only:)
  qed
  from g have "?row * ?cols + ?col < ?rows * ?cols"
  proof -
    from g have r: "Suc ?row \<le> ?rows" and cc: "?col < ?cols" by (simp_all add: inGrid_def)
    from r have "Suc ?row * ?cols \<le> ?rows * ?cols" by (rule mult_le_mono1)
    with cc show ?thesis by simp
  qed
  with len have "regionAt w h ov ?row ?col \<in> set (tileImage w h ov)"
    by (simp add: regionAt_def)
  with c show ?thesis by blast
qed

lemma tileImage_covers_small:
  assumes "w < 1200 \<and> h < 1200" "0 \<le> x" "x < w" "0 \<le> y" "y < h"
  shows "\<exists>r \<in> set (tileImage w h ov). covers r x y"
  using assms by (simp add: tileImage_def covers_def)

text \<open>
  C2: the regions do not cover every image. For an image of 2002 by 1200 pixels without an
  overview the grid has three columns of 667 pixels, the last region ends at pixel column
  2001, and the pixel (2001, 0) lies in no region.
\<close>

theorem tileImage_misses_last_column:
  "tileImage 2002 1200 None =
     [\<lparr>left = 0, topEdge = 0, width = 767, height = 1200, label = ''row1-col1''\<rparr>,
      \<lparr>left = 567, topEdge = 0, width = 867, height = 1200, label = ''row1-col2''\<rparr>,
      \<lparr>left = 1234, topEdge = 0, width = 767, height = 1200, label = ''row1-col3''\<rparr>] \<and>
   \<not> (\<exists>r \<in> set (tileImage 2002 1200 None). covers r 2001 0)"
  by code_simp




section \<open>Properties of the resolver\<close>

lemma half_le: "((n + 1) div 2 \<le> k) = (n \<le> 2 * k)" for n k :: nat
  by arith

lemma authorsMatch_refines: "authorsMatch expected candidate = authorsMatch_spec expected candidate"
  unfolding authorsMatch_def authorsMatch_spec_def Let_def lastElem_def wordsOverlap_def half_le
    nameWords_alphabeticWords includesStr_sublist
  by auto

text \<open>
  C6: \<open>authorsMatch\<close> is true when the expected author is empty or "Unknown" or the
  candidate is empty, and otherwise exactly when, with both names read as their lowercase
  alphabetic words of at least 3 characters, the last words of the two names are equal or
  at least half of the expected words are a substring of, or contain, some candidate word.
  It accepts "Stephen King" against itself and "Unknown" against every candidate, and it
  rejects "Stephen King" for "Frank Herbert".
\<close>

theorem authorsMatch_as_specified:
  "authorsMatch expected candidate = authorsMatch_spec expected candidate \<and>
   authorsMatch ''Stephen King'' ''Stephen King'' \<and>
   authorsMatch ''Unknown'' candidate \<and>
   \<not> authorsMatch ''Frank Herbert'' ''Stephen King'' \<and>
   \<not> authorsMatch_spec ''Frank Herbert'' ''Stephen King'' \<and>
   alphabeticWords ''J. R. R. Tolkien, Jr'' = [''tolkien''] \<and>
   nameWords ''J. R. R. Tolkien, Jr'' = [''tolkien'']"
proof -
  have "authorsMatch ''Stephen King'' ''Stephen King''"
    by code_simp
  moreover have "authorsMatch ''Unknown'' candidate"
    by (simp add: authorsMatch_def)
  moreover have r: "\<not> authorsMatch ''Frank Herbert'' ''Stephen King''"
    by code_simp
  moreover from r have "\<not> authorsMatch_spec ''Frank Herbert'' ''Stephen King''"
    by (simp only: authorsMatch_refines [symmetric] not_False_eq_True)
  moreover have "alphabeticWords ''J. R. R. Tolkien, Jr'' = [''tolkien'']"
    by code_simp
  moreover have "nameWords ''J. R. R. Tolkien, Jr'' = [''tolkien'']"
    by code_simp
  ultimately show ?thesis using authorsMatch_refines [of expected candidate] by (intro conjI)
qed

text \<open>
  For the prefix "analysis of" the query is tested for the word "analysis" alone: a query
  that starts with "analysis" lets a candidate "Analysis of ..." pass.
\<close>

lemma isSummaryKnockoff_analysis_word:
  "\<not> isSummaryKnockoff (Some ''Analysis of Dune'') (Some ''Analysis and Design'') \<and>
   isSummaryKnockoff (Some ''Analysis of Dune'') (Some ''Dune'')"
  by code_simp

text \<open>
  C7, as amended: the knockoff filter rejects a candidate exactly when its title starts, in
  any case of letters, with "summary" and the query does not, or with "review" and the
  query does not, or with "analysis of" and the query does not start with "analysis";
  "Summary of Dune" is rejected for the query "Dune" and passes for the query "Summary of
  Dune".
\<close>

theorem isSummaryKnockoff_as_specified:
  "isSummaryKnockoff resultTitle queryTitle =
     isSummaryKnockoff_spec (orEmpty resultTitle) (orEmpty queryTitle) \<and>
   isSummaryKnockoff (Some ''Summary of Dune'') (Some ''Dune'') \<and>
   \<not> isSummaryKnockoff (Some ''Summary of Dune'') (Some ''Summary of Dune'') \<and>
   isSummaryKnockoff_spec ''Summary of Dune'' ''Dune'' \<and>
   \<not> isSummaryKnockoff_spec ''Summary of Dune'' ''Summary of Dune''"
proof -
  have sw: "startsWith (toLowerCase s) ''summary'' = startsWithIgnoringCase s ''summary''"
    "startsWith (toLowerCase s) ''review'' = startsWithIgnoringCase s ''review''"
    "startsWith (toLowerCase s) ''analysis'' = startsWithIgnoringCase s ''analysis''"
    "startsWith (toLowerCase s) ''analysis of'' = startsWithIgnoringCase s ''analysis of''"
    for s
    by (rule startsWith_ignoringCase, simp add: isLetter_def less_eq_char_def)+
  have "isSummaryKnockoff resultTitle queryTitle =
      isSummaryKnockoff_spec (orEmpty resultTitle) (orEmpty queryTitle)"
    by (auto simp: isSummaryKnockoff_def isSummaryKnockoff_spec_def knockoffPrefixes_def Let_def sw)
  moreover have "isSummaryKnockoff (Some ''Summary of Dune'') (Some ''Dune'')"
    by code_simp
  moreover have "\<not> isSummaryKnockoff (Some ''Summary of Dune'') (Some ''Summary of Dune'')"
    by code_simp
  moreover have "isSummaryKnockoff_spec ''Summary of Dune'' ''Dune''"
    by code_simp
  moreover have "\<not> isSummaryKnockoff_spec ''Summary of Dune'' ''Summary of Dune''"
    by code_simp
  ultimately show ?thesis by (intro conjI)
qed

text \<open>
  Read to the letter, a candidate "Analysis of Dune" is rejected for the query "Analysis
  and Design", which does not start with "analysis of"; the source lets it pass, since the
  query starts with "analysis".
\<close>

theorem isSummaryKnockoff_as_claimed_counterexample:
  "isSummaryKnockoff_claimed ''Analysis of Dune'' ''Analysis and Design'' \<and>
   \<not> isSummaryKnockoff (Some ''Analysis of Dune'') (Some ''Analysis and Design'')"
proof -
  have "isSummaryKnockoff_claimed ''Analysis of Dune'' ''Analysis and Design''"
    by code_simp
  moreover have "\<not> isSummaryKnockoff (Some ''Analysis of Dune'') (Some ''Analysis and Design'')"
    by code_simp
  ultimately show ?thesis by (intro conjI)
qed

lemma firstAccepted_None_iff:
  "firstAccepted b s ds = None \<longleftrightarrow> (\<forall>d \<in> set ds. \<not> accepts b s d)"
  by (induction ds) auto

lemma firstAccepted_Some:
  "firstAccepted b s ds = Some d \<Longrightarrow> d \<in> set ds \<and> accepts b s d"
  by (induction ds) (auto split: if_splits)

lemma runStrategies_None:
  "(\<forall>j < length ss. fruitless svc b (i + j) (ss ! j)) \<Longrightarrow> runStrategies svc b i ss = None"
proof (induction ss arbitrary: i)
  case Nil
  show ?case by simp
next
  case (Cons s ss)
  from Cons.prems have here: "fruitless svc b i s" by force
  have "\<forall>j < length ss. fruitless svc b (Suc i + j) (ss ! j)"
  proof (intro allI impI)
    fix j assume "j < length ss"
    with Cons.prems have "fruitless svc b (i + Suc j) ((s # ss) ! Suc j)" by force
    then show "fruitless svc b (Suc i + j) (ss ! j)" by simp
  qed
  then have rest: "runStrategies svc b (Suc i) ss = None" by (rule Cons.IH)
  from here rest show ?case
    by (auto simp: fruitless_def split: option.splits dest: firstAccepted_Some)
qed

lemma runStrategies_Some:
  "runStrategies svc b i ss = Some d \<Longrightarrow>
   \<exists>j < length ss. 2 \<le> length (query (ss ! j)) \<and>
     (\<exists>docs. svc (i + j) (titleField (ss ! j)) (query (ss ! j)) = Some docs \<and> d \<in> set docs) \<and>
     accepts b (ss ! j) d"
proof (induction ss arbitrary: i)
  case Nil
  then show ?case by simp
next
  case (Cons s ss)
  show ?case
  proof (cases "runStrategies svc b (Suc i) ss = Some d")
    case True
    from Cons.IH [OF this] obtain j where "j < length ss" "2 \<le> length (query (ss ! j))"
      "\<exists>docs. svc (Suc i + j) (titleField (ss ! j)) (query (ss ! j)) = Some docs \<and> d \<in> set docs"
      "accepts b (ss ! j) d" by blast
    then have "Suc j < length (s # ss) \<and> 2 \<le> length (query ((s # ss) ! Suc j)) \<and>
      (\<exists>docs. svc (i + Suc j) (titleField ((s # ss) ! Suc j)) (query ((s # ss) ! Suc j)) = Some docs
         \<and> d \<in> set docs) \<and> accepts b ((s # ss) ! Suc j) d" by simp
    then show ?thesis by blast
  next
    case False
    with Cons.prems obtain docs where "2 \<le> length (query s)"
      "svc i (titleField s) (query s) = Some docs" "firstAccepted b s docs = Some d"
      by (auto split: if_splits option.splits)
    with firstAccepted_Some [of b s docs d]
    have "0 < length (s # ss) \<and> 2 \<le> length (query ((s # ss) ! 0)) \<and>
      (\<exists>docs. svc (i + 0) (titleField ((s # ss) ! 0)) (query ((s # ss) ! 0)) = Some docs
         \<and> d \<in> set docs) \<and> accepts b ((s # ss) ! 0) d" by auto
    then show ?thesis by blast
  qed
qed

lemma exhausted_fruitless:
  "exhausted svc b \<longleftrightarrow> (\<forall>i < length (strategies b). fruitless svc b i (strategies b ! i))"
  by (simp add: exhausted_def)

text \<open>
  C5: when no candidate is accepted on any strategy, \<open>lookupOneBook\<close> returns the input
  with \<open>matched\<close> false: title, author, confidence and corrected are those of the input,
  and nothing of the catalog is added.
\<close>

theorem lookupOneBook_exhausted:
  assumes "exhausted svc b"
  shows "lookupOneBook svc b = unmatched b \<and>
     title (lookupOneBook svc b) = title b \<and> author (lookupOneBook svc b) = author b \<and>
     confidence (lookupOneBook svc b) = confidence b \<and>
     corrected (lookupOneBook svc b) = corrected b \<and>
     info (lookupOneBook svc b) = None \<and> \<not> matched (lookupOneBook svc b)"
proof -
  from assms have "\<forall>j < length (strategies b). fruitless svc b (0 + j) (strategies b ! j)"
    by (simp add: exhausted_fruitless)
  then have "runStrategies svc b 0 (strategies b) = None" by (rule runStrategies_None)
  then have "lookupOneBook svc b = unmatched b"
    by (simp add: lookupOneBook_def acceptedDoc_def)
  then show ?thesis by (simp add: unmatched_def)
qed

lemma summary_rejected: "\<not> accepts duneHigh s summaryDoc"
proof -
  have "isSummaryKnockoff (docTitle summaryDoc) (Some (title duneHigh))" by code_simp
  then show ?thesis by (simp add: accepts_def)
qed

theorem lookupOneBook_exhausted_witness:
  "exhausted summaryService duneHigh \<and>
   lookupOneBook summaryService duneHigh = unmatched duneHigh \<and>
   title (lookupOneBook summaryService duneHigh) = title duneHigh \<and>
   author (lookupOneBook summaryService duneHigh) = author duneHigh \<and>
   \<not> matched (lookupOneBook summaryService duneHigh)"
proof -
  have e: "exhausted summaryService duneHigh"
    by (simp add: exhausted_def fruitless_def summaryService_def summary_rejected)
  note t = lookupOneBook_exhausted [OF e]
  show ?thesis
    by (intro conjI [OF e] conjI [OF t [THEN conjunct1]]
        conjI [OF t [THEN conjunct2, THEN conjunct1]]
        conjI [OF t [THEN conjunct2, THEN conjunct2, THEN conjunct1]]
        t [THEN conjunct2, THEN conjunct2, THEN conjunct2, THEN conjunct2, THEN conjunct2,
           THEN conjunct2])
qed

text \<open>
  C8, as amended: a document that \<open>lookupOneBook\<close> accepts was returned by the search of
  one of the strategies and passed that strategy's filters; its title overlaps the query
  of that strategy in a word, unless the query has no word of three or more characters,
  in which case the title check lets every document pass. The overlap is stated twice: by
  the functions of the source, and in the words of the specification (a lowercase
  alphanumeric word of at least 3 characters of the query is a substring of, or contains,
  such a word of the title).
\<close>

theorem accepted_title_overlap:
  assumes "acceptedDoc svc b = Some d"
  shows "lookupOneBook svc b = docToResult d b \<and>
     (\<exists>i < length (strategies b).
        2 \<le> length (query (strategies b ! i)) \<and>
        (\<exists>docs. svc i (titleField (strategies b ! i)) (query (strategies b ! i)) = Some docs \<and>
                d \<in> set docs) \<and>
        accepts b (strategies b ! i) d \<and>
        (titleWords (query (strategies b ! i)) = [] \<or>
         titleOverlap (query (strategies b ! i)) (docTitle d)) \<and>
        (alphanumericWords (query (strategies b ! i)) = [] \<or>
         titleOverlap_spec (query (strategies b ! i)) (orEmpty (docTitle d))))"
proof -
  from assms have "runStrategies svc b 0 (strategies b) = Some d" by (simp add: acceptedDoc_def)
  from runStrategies_Some [OF this] obtain i where i: "i < length (strategies b)"
    "2 \<le> length (query (strategies b ! i))"
    "\<exists>docs. svc i (titleField (strategies b ! i)) (query (strategies b ! i)) = Some docs \<and> d \<in> set docs"
    "accepts b (strategies b ! i) d"
    by auto
  from i(4) have o: "titleWords (query (strategies b ! i)) = [] \<or>
         titleOverlap (query (strategies b ! i)) (docTitle d)"
    by (auto simp: accepts_def split: if_splits)
  then have "alphanumericWords (query (strategies b ! i)) = [] \<or>
         titleOverlap_spec (query (strategies b ! i)) (orEmpty (docTitle d))"
    by (simp only: titleWords_alphanumericWords titleOverlap_titleOverlap_spec)
  with i o have "\<exists>i < length (strategies b).
        2 \<le> length (query (strategies b ! i)) \<and>
        (\<exists>docs. svc i (titleField (strategies b ! i)) (query (strategies b ! i)) = Some docs \<and>
                d \<in> set docs) \<and>
        accepts b (strategies b ! i) d \<and>
        (titleWords (query (strategies b ! i)) = [] \<or>
         titleOverlap (query (strategies b ! i)) (docTitle d)) \<and>
        (alphanumericWords (query (strategies b ! i)) = [] \<or>
         titleOverlap_spec (query (strategies b ! i)) (orEmpty (docTitle d)))" by blast
  moreover from assms have "lookupOneBook svc b = docToResult d b" by (simp add: lookupOneBook_def)
  ultimately show ?thesis by blast
qed

text \<open>
  The query "It" has no word of three characters: the document "Dune" is accepted for it
  on the first strategy, with no word in common.
\<close>

theorem accepted_title_overlap_counterexample:
  "acceptedDoc duneService itBook = Some duneDoc \<and>
   map query (strategies itBook) = [''It'', ''It'', ''It'', ''It'', ''It'', ''It''] \<and>
   \<not> titleOverlap ''It'' (docTitle duneDoc) \<and>
   title (lookupOneBook duneService itBook) = ''Dune'' \<and>
   alphanumericWords ''It'' = [] \<and> alphanumericWords ''Dune'' = [''dune''] \<and>
   \<not> titleOverlap_spec ''It'' ''Dune''"
proof -
  have w1: "alphanumericWords ''It'' = []" and w2: "alphanumericWords ''Dune'' = [''dune'']"
    and w3: "\<not> titleOverlap_spec ''It'' ''Dune''"
    by code_simp+
  have a: "acceptedDoc duneService itBook = Some duneDoc" by code_simp
  have q: "map query (strategies itBook) = [''It'', ''It'', ''It'', ''It'', ''It'', ''It'']"
    by code_simp
  have n: "\<not> titleOverlap ''It'' (docTitle duneDoc)" by code_simp
  have "title (docToResult duneDoc itBook) = ''Dune''"
    by (simp add: docToResult_def duneDoc_def orEmpty_def Let_def)
  with a have t: "title (lookupOneBook duneService itBook) = ''Dune''"
    by (simp add: lookupOneBook_def)
  from a q n t w1 w2 w3 show ?thesis by (intro conjI)
qed

theorem accepted_title_overlap_witness:
  "acceptedDoc duneService duneHigh = Some duneDoc \<and>
   lookupOneBook duneService duneHigh = docToResult duneDoc duneHigh \<and>
   (\<exists>i < length (strategies duneHigh).
      2 \<le> length (query (strategies duneHigh ! i)) \<and>
      (\<exists>docs. duneService i (titleField (strategies duneHigh ! i))
                (query (strategies duneHigh ! i)) = Some docs \<and> duneDoc \<in> set docs) \<and>
      accepts duneHigh (strategies duneHigh ! i) duneDoc \<and>
      (titleWords (query (strategies duneHigh ! i)) = [] \<or>
       titleOverlap (query (strategies duneHigh ! i)) (docTitle duneDoc)) \<and>
      (alphanumericWords (query (strategies duneHigh ! i)) = [] \<or>
       titleOverlap_spec (query (strategies duneHigh ! i)) (orEmpty (docTitle duneDoc))))"
proof -
  have a: "acceptedDoc duneService duneHigh = Some duneDoc" by code_simp
  note t = accepted_title_overlap [OF a]
  show ?thesis by (intro conjI [OF a] conjI [OF t [THEN conjunct1]] t [THEN conjunct2])
qed

text \<open>
  C1: for a list of books the handler answers with a list of the same length, whose entry
  at each index is the lookup of the book at that index; for the empty list it answers
  with the empty list.
\<close>

theorem apiLookup_one_to_one:
  "apiLookup svc (Some []) = Ok [] \<and>
   (\<exists>rs. apiLookup svc (Some bs) = Ok rs \<and> length rs = length bs \<and>
      (\<forall>i < length bs. rs ! i = lookupOneBook (svc i) (bs ! i)))"
  by (simp add: apiLookup_def)

theorem apiLookup_one_to_one_witness:
  "(1::nat) < length [duneHigh, itBook] \<and>
   (\<exists>rs. apiLookup (\<lambda>i. duneService) (Some [duneHigh, itBook]) = Ok rs \<and>
      length rs = length [duneHigh, itBook] \<and>
      rs ! 1 = lookupOneBook duneService ([duneHigh, itBook] ! 1))"
proof -
  from apiLookup_one_to_one [of "\<lambda>i. duneService" "[duneHigh, itBook]"]
  obtain rs where rs: "apiLookup (\<lambda>i. duneService) (Some [duneHigh, itBook]) = Ok rs"
    "length rs = length [duneHigh, itBook]"
    "\<forall>i < length [duneHigh, itBook]. rs ! i = lookupOneBook duneService ([duneHigh, itBook] ! i)"
    by blast
  have one: "(1::nat) < length [duneHigh, itBook]" by simp
  with rs(3) have "rs ! 1 = lookupOneBook duneService ([duneHigh, itBook] ! 1)" by blast
  with rs(1,2) one show ?thesis by blast
qed

end
